theory Spec2Isabelle
  imports Main "HOL-Library.Char_ord" "HOL-Library.List_Lexorder" "HOL-Library.Multiset"
    "HOL-Library.Word"
begin

unbundle bit_operations_syntax

section \<open>Text\<close>

text \<open>
  A Python \<open>str\<close> is modelled as a \<open>string\<close> whose characters are the code points
  0 to 255 (ASCII and Latin-1); \<open>length\<close> counts code points, as \<open>len\<close> does.
  The helpers below follow the behaviour of the Python built-ins on that alphabet.
\<close>

definition isspace :: "char \<Rightarrow> bool" where
  \<comment> \<open>\<open>str.isspace\<close> on one character: the twelve white-space code points below 256\<close>
  "isspace c = (c \<in> set [CHR 0x09, CHR 0x0A, CHR 0x0B, CHR 0x0C, CHR 0x0D,
                           CHR 0x1C, CHR 0x1D, CHR 0x1E, CHR 0x1F, CHR 0x20,
                           CHR 0x85, CHR 0xA0])"

definition strip :: "string \<Rightarrow> string" where
  \<comment> \<open>\<open>str.strip()\<close>\<close>
  "strip s = rev (dropWhile isspace (rev (dropWhile isspace s)))"

definition lower_char :: "char \<Rightarrow> char" where
  "lower_char c =
     (if (CHR ''A'' \<le> c \<and> c \<le> CHR ''Z'') \<or> (CHR 0xC0 \<le> c \<and> c \<le> CHR 0xDE \<and> c \<noteq> CHR 0xD7)
      then char_of (of_char c + (32::nat)) else c)"

definition lower :: "string \<Rightarrow> string" where
  \<comment> \<open>\<open>str.lower()\<close>\<close>
  "lower s = map lower_char s"




definition isdigit :: "char \<Rightarrow> bool" where
  \<comment> \<open>the class \<open>[0-9]\<close>\<close>
  "isdigit c = (CHR ''0'' \<le> c \<and> c \<le> CHR ''9'')"

definition digit_val :: "char \<Rightarrow> int" where
  "digit_val c = of_char c - 48"

fun digits_val :: "int \<Rightarrow> string \<Rightarrow> int" where
  \<comment> \<open>the number written by a digit string, most significant digit first\<close>
  "digits_val acc [] = acc"
| "digits_val acc (c # cs) = digits_val (10 * acc + digit_val c) cs"

definition digit_char :: "int \<Rightarrow> char" where
  "digit_char d = char_of (48 + d)"

function show_nat :: "int \<Rightarrow> string" where
  \<comment> \<open>decimal numeral of a non-negative integer, without leading zeros\<close>
  "show_nat n = (if n < 10 then [digit_char n] else show_nat (n div 10) @ [digit_char (n mod 10)])"
  by pat_completeness auto
termination
  by (relation "measure nat") auto

declare show_nat.simps [simp del]

definition pad2 :: "int \<Rightarrow> string" where
  \<comment> \<open>at least two digits, zero-filled\<close>
  "pad2 n = (if n < 10 then CHR ''0'' # show_nat n else show_nat n)"

section \<open>Floating-point numbers\<close>

text \<open>
  Python's \<open>float\<close> is an IEEE 754 binary64 number. \<open>Finite s m e\<close> stands for
  \<open>(-1)\<^sup>s * m * 2\<^sup>e\<close> in the canonical form \<open>m < 2\<^sup>5\<^sup>3\<close>, \<open>-1074 \<le> e \<le> 971\<close> and
  \<open>2\<^sup>5\<^sup>2 \<le> m\<close> unless \<open>e = -1074\<close>, so that equality of terms is equality of bit patterns
  (all NaNs identified). Every operation computes the exact result and rounds it to the
  nearest such number, ties to even.
\<close>

datatype pyfloat = Finite bool int int | Infinity bool | NaN

function bitlength :: "int \<Rightarrow> int" where
  \<comment> \<open>number of binary digits of a positive integer\<close>
  "bitlength n = (if n \<le> 0 then 0 else 1 + bitlength (n div 2))"
  by pat_completeness auto
termination
  by (relation "measure nat") auto

declare bitlength.simps [simp del]

definition round_half_even :: "int \<Rightarrow> int \<Rightarrow> int" where
  \<comment> \<open>the integer nearest to \<open>a / b\<close>, ties to the even one (\<open>a \<ge> 0\<close>, \<open>b > 0\<close>)\<close>
  "round_half_even a b =
     (let q = a div b; r = a mod b
      in if 2 * r < b then q else if b < 2 * r then q + 1 else if even q then q else q + 1)"

definition round_ratio :: "bool \<Rightarrow> int \<Rightarrow> int \<Rightarrow> pyfloat" where
  \<comment> \<open>the float nearest to \<open>(-1)\<^sup>s * a / b\<close> (\<open>a \<ge> 0\<close>, \<open>b > 0\<close>)\<close>
  "round_ratio s a b =
     (if a = 0 then Finite s 0 (- 1074)
      else
        let d = bitlength a - bitlength b;
            e0 = (if (if 0 \<le> d then b * 2 ^ nat d \<le> a else b \<le> a * 2 ^ nat (- d)) then d else d - 1);
            e = max (e0 - 52) (- 1074);
            n = (if 0 \<le> e then round_half_even a (b * 2 ^ nat e)
                 else round_half_even (a * 2 ^ nat (- e)) b)
        in if n = 2 ^ 53 then (if 971 < e + 1 then Infinity s else Finite s (2 ^ 52) (e + 1))
           else if 971 < e then Infinity s
           else Finite s n e)"

fun float_wf :: "pyfloat \<Rightarrow> bool" where
  \<comment> \<open>the mantissa is a magnitude\<close>
  "float_wf (Finite s m e) = (0 \<le> m)"
| "float_wf x = True"

definition scaled :: "bool \<Rightarrow> int \<Rightarrow> int \<Rightarrow> int \<Rightarrow> int" where
  \<comment> \<open>\<open>(-1)\<^sup>s * m * 2\<^sup>e\<close> in units of \<open>2\<^sup>e\<^sup>0\<close>, for \<open>e0 \<le> e\<close>\<close>
  "scaled s m e e0 = (if s then - 1 else 1) * m * 2 ^ nat (e - e0)"

fun float_gt :: "pyfloat \<Rightarrow> pyfloat \<Rightarrow> bool" where
  \<comment> \<open>\<open>x > y\<close>\<close>
  "float_gt NaN y = False"
| "float_gt x NaN = False"
| "float_gt (Infinity s1) (Infinity s2) = (\<not> s1 \<and> s2)"
| "float_gt (Infinity s1) (Finite s2 m2 e2) = (\<not> s1)"
| "float_gt (Finite s1 m1 e1) (Infinity s2) = s2"
| "float_gt (Finite s1 m1 e1) (Finite s2 m2 e2) =
     (scaled s2 m2 e2 (min e1 e2) < scaled s1 m1 e1 (min e1 e2))"

fun float_ge0 :: "pyfloat \<Rightarrow> bool" where
  \<comment> \<open>\<open>x >= 0\<close>: true of both zeros\<close>
  "float_ge0 NaN = False"
| "float_ge0 (Infinity s) = (\<not> s)"
| "float_ge0 (Finite s m e) = (\<not> s \<or> m = 0)"


definition cents :: "int \<Rightarrow> int \<Rightarrow> int" where
  \<comment> \<open>\<open>m * 2\<^sup>e\<close> in hundredths, rounded to the nearest integer, ties to even\<close>
  "cents m e = (if 0 \<le> e then m * 2 ^ nat e * 100 else round_half_even (m * 100) (2 ^ nat (- e)))"

fun round2 :: "pyfloat \<Rightarrow> pyfloat" where
  \<comment> \<open>\<open>round(x, 2)\<close>: the float nearest to the two-place decimal nearest to \<open>x\<close>\<close>
  "round2 (Finite s m e) = round_ratio s (cents m e) 100"
| "round2 x = x"



subsection \<open>Reading a float\<close>

fun underscores_ok :: "char \<Rightarrow> string \<Rightarrow> bool" where
  \<comment> \<open>the scan of \<open>float()\<close> over digit-group underscores: one is allowed only between
      two digits; the first argument is the previous character\<close>
  "underscores_ok prev [] = (prev \<noteq> CHR ''_'')"
| "underscores_ok prev (c # cs) =
     (if c = CHR ''_'' then isdigit prev \<and> underscores_ok c cs
      else (prev = CHR ''_'' \<longrightarrow> isdigit c) \<and> underscores_ok c cs)"

definition split_sign :: "string \<Rightarrow> bool \<times> string" where
  \<comment> \<open>an optional sign; \<open>True\<close> is minus\<close>
  "split_sign s =
     (case s of
        [] \<Rightarrow> (False, [])
      | c # cs \<Rightarrow> if c = CHR ''-'' then (True, cs) else if c = CHR ''+'' then (False, cs) else (False, s))"

definition mantissa_parts :: "string \<Rightarrow> string \<times> string \<times> string" where
  \<comment> \<open>the digits before the point, the digits after it, and the rest of the text\<close>
  "mantissa_parts s =
     (let ip = takeWhile isdigit s; r1 = dropWhile isdigit s
      in case r1 of
           [] \<Rightarrow> (ip, [], r1)
         | c # t \<Rightarrow> if c = CHR ''.'' then (ip, takeWhile isdigit t, dropWhile isdigit t)
                    else (ip, [], r1))"

definition exponent_part :: "string \<Rightarrow> int option" where
  \<comment> \<open>nothing, or \<open>(e|E) [sign] digits\<close> up to the end of the text; \<open>None\<close> when something
      else follows the mantissa\<close>
  "exponent_part r =
     (case r of
        [] \<Rightarrow> Some 0
      | c # t \<Rightarrow>
          if c = CHR ''e'' \<or> c = CHR ''E''
          then (let (es, ds) = split_sign t
                in if ds \<noteq> [] \<and> list_all isdigit ds
                   then Some (if es then - digits_val 0 ds else digits_val 0 ds)
                   else None)
          else None)"

definition parse_decimal :: "string \<Rightarrow> (int \<times> int) option" where
  \<comment> \<open>an unsigned decimal numeral \<open>digits [. digits] [(e|E) [sign] digits]\<close> with at least
      one digit before the exponent, read as \<open>(D, k)\<close> for the number \<open>D * 10\<^sup>k\<close>\<close>
  "parse_decimal s =
     (case mantissa_parts s of
        (ip, fp, r2) \<Rightarrow>
          if ip = [] \<and> fp = [] then None
          else case exponent_part r2 of
                 None \<Rightarrow> None
               | Some ex \<Rightarrow> Some (digits_val 0 (ip @ fp), ex - int (length fp)))"

definition float_of_str :: "string \<Rightarrow> pyfloat option" where
  \<comment> \<open>\<open>float(s)\<close> for text without surrounding white space; \<open>None\<close> is \<open>ValueError\<close>\<close>
  "float_of_str s =
     (if \<not> underscores_ok (CHR 0x00) s then None
      else
        let (neg, body) = split_sign (filter (\<lambda>c. c \<noteq> CHR ''_'') s)
        in case parse_decimal body of
             Some (D, k) \<Rightarrow>
               Some (if 0 \<le> k then round_ratio neg (D * 10 ^ nat k) 1
                     else round_ratio neg D (10 ^ nat (- k)))
           | None \<Rightarrow>
               if lower body = ''inf'' \<or> lower body = ''infinity'' then Some (Infinity neg)
               else if lower body = ''nan'' then Some NaN
               else None)"

section \<open>Validation\<close>

definition validate_cpf :: "string \<Rightarrow> bool" where
  "validate_cpf cpf = (if cpf = [] then True else length (filter isdigit cpf) = 11)"

definition replace_comma :: "string \<Rightarrow> string" where
  \<comment> \<open>\<open>.replace(',', '.')\<close>\<close>
  "replace_comma s = map (\<lambda>c. if c = CHR '','' then CHR ''.'' else c) s"

fun remove_currency :: "string \<Rightarrow> string" where
  \<comment> \<open>\<open>.replace('R$', '')\<close>: every occurrence, scanned from the left\<close>
  "remove_currency (c # d # cs) =
     (if c = CHR ''R'' \<and> d = CHR ''$'' then remove_currency cs else c # remove_currency (d # cs))"
| "remove_currency cs = cs"

definition validate_value :: "string \<Rightarrow> pyfloat option" where
  "validate_value value_str =
     (case float_of_str (strip (remove_currency (replace_comma value_str))) of
        None \<Rightarrow> None
      | Some v \<Rightarrow> if float_ge0 v then Some (round2 v) else None)"

subsection \<open>Dates\<close>

record datetime =
  day :: int
  month :: int
  year :: int
  hour :: int
  minute :: int
  second :: int

definition strftime :: "datetime \<Rightarrow> string" where
  \<comment> \<open>\<open>.strftime('%d/%m/%Y %H:%M:%S')\<close>; the year is printed as the C library prints it,
      without zero fill below 1000\<close>
  "strftime dt =
     pad2 (day dt) @ ''/'' @ pad2 (month dt) @ ''/'' @ show_nat (year dt) @ '' '' @
     pad2 (hour dt) @ '':'' @ pad2 (minute dt) @ '':'' @ pad2 (second dt)"

definition in_range :: "char \<Rightarrow> char \<Rightarrow> char \<Rightarrow> bool" where
  \<comment> \<open>the character class \<open>[lo-hi]\<close>\<close>
  "in_range lo hi c = (lo \<le> c \<and> c \<le> hi)"

definition two_chars :: "(char \<Rightarrow> bool) \<Rightarrow> (char \<Rightarrow> bool) \<Rightarrow> string \<Rightarrow> (int \<times> string) list" where
  \<comment> \<open>one alternative of a directive: two characters of the given classes\<close>
  "two_chars P Q s =
     (case s of
        a # b # r \<Rightarrow> if P a \<and> Q b then [(digits_val 0 (filter isdigit [a, b]), r)] else []
      | _ \<Rightarrow> [])"

definition one_char :: "(char \<Rightarrow> bool) \<Rightarrow> string \<Rightarrow> (int \<times> string) list" where
  "one_char P s = (case s of a # r \<Rightarrow> if P a then [(digit_val a, r)] else [] | [] \<Rightarrow> [])"

definition re_d :: "string \<Rightarrow> (int \<times> string) list" where
  \<comment> \<open>\<open>%d\<close>: \<open>3[0-1]|[1-2]\d|0[1-9]|[1-9]| [1-9]\<close>, the alternatives in their order\<close>
  "re_d s =
     two_chars (\<lambda>c. c = CHR ''3'') (in_range (CHR ''0'') (CHR ''1'')) s @
     two_chars (in_range (CHR ''1'') (CHR ''2'')) isdigit s @
     two_chars (\<lambda>c. c = CHR ''0'') (in_range (CHR ''1'') (CHR ''9'')) s @
     one_char (in_range (CHR ''1'') (CHR ''9'')) s @
     two_chars (\<lambda>c. c = CHR '' '') (in_range (CHR ''1'') (CHR ''9'')) s"

definition re_m :: "string \<Rightarrow> (int \<times> string) list" where
  \<comment> \<open>\<open>%m\<close>: \<open>1[0-2]|0[1-9]|[1-9]\<close>\<close>
  "re_m s =
     two_chars (\<lambda>c. c = CHR ''1'') (in_range (CHR ''0'') (CHR ''2'')) s @
     two_chars (\<lambda>c. c = CHR ''0'') (in_range (CHR ''1'') (CHR ''9'')) s @
     one_char (in_range (CHR ''1'') (CHR ''9'')) s"

definition re_Y :: "string \<Rightarrow> (int \<times> string) list" where
  \<comment> \<open>\<open>%Y\<close>: \<open>\d\d\d\d\<close>\<close>
  "re_Y s =
     (if 4 \<le> length s \<and> list_all isdigit (take 4 s) then [(digits_val 0 (take 4 s), drop 4 s)]
      else [])"

definition re_H :: "string \<Rightarrow> (int \<times> string) list" where
  \<comment> \<open>\<open>%H\<close>: \<open>2[0-3]|[0-1]\d|\d\<close>\<close>
  "re_H s =
     two_chars (\<lambda>c. c = CHR ''2'') (in_range (CHR ''0'') (CHR ''3'')) s @
     two_chars (in_range (CHR ''0'') (CHR ''1'')) isdigit s @
     one_char isdigit s"

definition re_M :: "string \<Rightarrow> (int \<times> string) list" where
  \<comment> \<open>\<open>%M\<close>: \<open>[0-5]\d|\d\<close>\<close>
  "re_M s = two_chars (in_range (CHR ''0'') (CHR ''5'')) isdigit s @ one_char isdigit s"

definition re_S :: "string \<Rightarrow> (int \<times> string) list" where
  \<comment> \<open>\<open>%S\<close>: \<open>6[0-1]|[0-5]\d|\d\<close>\<close>
  "re_S s =
     two_chars (\<lambda>c. c = CHR ''6'') (in_range (CHR ''0'') (CHR ''1'')) s @
     two_chars (in_range (CHR ''0'') (CHR ''5'')) isdigit s @
     one_char isdigit s"

definition re_lit :: "char \<Rightarrow> string \<Rightarrow> string list" where
  "re_lit c s = (case s of x # r \<Rightarrow> if x = c then [r] else [] | [] \<Rightarrow> [])"

definition re_spaces :: "string \<Rightarrow> string list" where
  \<comment> \<open>\<open>\s+\<close>, which the blank of the format stands for: greedy, the longest run first\<close>
  "re_spaces s = map (\<lambda>k. drop k s) (rev [1 ..< Suc (length (takeWhile isspace s))])"

definition re_match :: "string \<Rightarrow> (datetime \<times> string) list" where
  \<comment> \<open>all the ways the regular expression of \<open>'%d/%m/%Y %H:%M:%S'\<close> matches a prefix of
      the text, in the order a backtracking matcher finds them, each with the rest\<close>
  "re_match s =
     List.bind (re_d s) (\<lambda>(d, r1).
     List.bind (re_lit (CHR ''/'') r1) (\<lambda>r2.
     List.bind (re_m r2) (\<lambda>(m, r3).
     List.bind (re_lit (CHR ''/'') r3) (\<lambda>r4.
     List.bind (re_Y r4) (\<lambda>(y, r5).
     List.bind (re_spaces r5) (\<lambda>r6.
     List.bind (re_H r6) (\<lambda>(H, r7).
     List.bind (re_lit (CHR '':'') r7) (\<lambda>r8.
     List.bind (re_M r8) (\<lambda>(M, r9).
     List.bind (re_lit (CHR '':'') r9) (\<lambda>r10.
     List.bind (re_S r10) (\<lambda>(S, r11).
       [(\<lparr>day = d, month = m, year = y, hour = H, minute = M, second = S\<rparr>, r11)])))))))))))"

definition is_leap :: "int \<Rightarrow> bool" where
  "is_leap y = (y mod 4 = 0 \<and> (y mod 100 \<noteq> 0 \<or> y mod 400 = 0))"

definition days_in_month :: "int \<Rightarrow> int \<Rightarrow> int" where
  "days_in_month y m =
     (if m = 2 then (if is_leap y then 29 else 28)
      else if m \<in> {4, 6, 9, 11} then 30 else 31)"

definition valid_datetime :: "datetime \<Rightarrow> bool" where
  \<comment> \<open>the checks of the \<open>datetime\<close> constructor\<close>
  "valid_datetime dt =
     (1 \<le> year dt \<and> year dt \<le> 9999 \<and> 1 \<le> month dt \<and> month dt \<le> 12 \<and>
      1 \<le> day dt \<and> day dt \<le> days_in_month (year dt) (month dt) \<and>
      0 \<le> hour dt \<and> hour dt \<le> 23 \<and> 0 \<le> minute dt \<and> minute dt \<le> 59 \<and>
      0 \<le> second dt \<and> second dt \<le> 59)"

definition strptime :: "string \<Rightarrow> datetime option" where
  \<comment> \<open>\<open>datetime.strptime(s, '%d/%m/%Y %H:%M:%S')\<close>; \<open>None\<close> is \<open>ValueError\<close>: no match,
      unconverted data after the first match, or a date that does not exist\<close>
  "strptime s =
     (case re_match s of
        [] \<Rightarrow> None
      | (dt, rest) # _ \<Rightarrow> if rest \<noteq> [] then None else if valid_datetime dt then Some dt else None)"

definition validate_date :: "datetime \<Rightarrow> string \<Rightarrow> string option" where
  \<comment> \<open>the first argument is the value of \<open>datetime.now()\<close>\<close>
  "validate_date now date_str =
     (if lower date_str = ''agora'' then Some (strftime now)
      else case strptime date_str of Some dt \<Rightarrow> Some (strftime dt) | None \<Rightarrow> None)"

definition sanitize_input :: "string \<Rightarrow> nat \<Rightarrow> string" where
  \<comment> \<open>\<open>max_length\<close> is never negative at the call sites (255 by default, 200, 300)\<close>
  "sanitize_input text max_length = (if text = [] then [] else take max_length (strip text))"


section \<open>The table \<open>pedidos\<close>\<close>

text \<open>
  A row of the table created by \<open>init_db\<close>. The column \<open>id\<close> is the field \<open>pid\<close>.
  The columns \<open>desconto\<close> and \<open>economia\<close> may hold \<open>NULL\<close> (\<open>None\<close>); \<open>valor\<close> is
  \<open>NOT NULL\<close>. The table is the list of its rows in the order of insertion.

  Every store function opens its own connection inside \<open>try\<close>. Its first argument
  \<open>ok\<close> tells whether SQLite works during the call; when it does not, an exception
  is raised inside the \<open>try\<close> block and nothing is committed. Log output is not modelled.
\<close>

record pedido =
  pid :: string
  cpf :: string
  nome :: string
  produto :: string
  valor :: pyfloat
  desconto :: "pyfloat option"
  economia :: "pyfloat option"
  status :: string
  created_at :: string
  trans_id :: string
  updated_at :: string

text \<open>
  The dictionary \<open>context.user_data['pedido']\<close> that the dialogue fills: the key \<open>id\<close> is
  there from its creation, every other key is absent (\<open>None\<close>) until a handler writes it.
\<close>

record draft =
  k_id :: string
  k_cpf :: "string option"
  k_nome :: "string option"
  k_produto :: "string option"
  k_valor :: "pyfloat option"
  k_desconto :: "pyfloat option"
  k_economia :: "pyfloat option"
  k_status :: "string option"
  k_created_at :: "string option"
  k_trans_id :: "string option"

definition get_or :: "'a option \<Rightarrow> 'a \<Rightarrow> 'a" where
  \<comment> \<open>\<open>dict.get(key, default)\<close>\<close>
  "get_or v d = (case v of Some x \<Rightarrow> x | None \<Rightarrow> d)"

definition float_zero :: pyfloat where
  "float_zero = Finite False 0 (- 1074)"

fun sql_real :: "pyfloat \<Rightarrow> pyfloat option" where
  \<comment> \<open>what a \<open>REAL\<close> column gives back for a bound float: NaN is stored as \<open>NULL\<close>, and
      minus zero comes back as zero\<close>
  "sql_real NaN = None"
| "sql_real (Infinity s) = Some (Infinity s)"
| "sql_real (Finite s m e) = (if m = 0 then Some float_zero else Some (Finite s m e))"

definition add_pedido_db ::
  "bool \<Rightarrow> datetime \<Rightarrow> datetime \<Rightarrow> pedido list \<Rightarrow> draft \<Rightarrow> bool \<times> pedido list" where
  \<comment> \<open>\<open>t_default\<close> and \<open>t_update\<close> are the two readings of \<open>datetime.now()\<close>. The insert
      fails on a row with the same primary key and on a \<open>NULL\<close> in \<open>valor\<close>.\<close>
  "add_pedido_db ok t_default t_update rows p =
     (if \<not> ok then (False, rows)
      else if k_id p \<in> set (map pid rows) then (False, rows)
      else case sql_real (get_or (k_valor p) float_zero) of
             None \<Rightarrow> (False, rows)
           | Some v \<Rightarrow>
               (True, rows @
                 [\<lparr>pid = k_id p,
                   cpf = get_or (k_cpf p) [],
                   nome = get_or (k_nome p) [],
                   produto = get_or (k_produto p) [],
                   valor = v,
                   desconto = sql_real (get_or (k_desconto p) float_zero),
                   economia = sql_real (get_or (k_economia p) float_zero),
                   status = get_or (k_status p) ''pendente'',
                   created_at = get_or (k_created_at p) (strftime t_default),
                   trans_id = get_or (k_trans_id p) [],
                   updated_at = strftime t_update\<rparr>]))"

definition get_pedido_by_id :: "bool \<Rightarrow> pedido list \<Rightarrow> string \<Rightarrow> pedido option" where
  "get_pedido_by_id ok rows i = (if \<not> ok then None else find (\<lambda>r. pid r = i) rows)"

subsection \<open>Searching\<close>

definition c_text :: "string \<Rightarrow> string" where
  \<comment> \<open>the text as the \<open>LIKE\<close> function reads it: up to the first NUL character\<close>
  "c_text s = takeWhile (\<lambda>c. c \<noteq> CHR 0x00) s"

definition like_char_eq :: "char \<Rightarrow> char \<Rightarrow> bool" where
  \<comment> \<open>\<open>LIKE\<close> ignores case for ASCII letters only\<close>
  "like_char_eq p c =
     (p = c \<or> (in_range (CHR ''A'') (CHR ''Z'') p \<or> in_range (CHR ''a'') (CHR ''z'') p) \<and>
               (in_range (CHR ''A'') (CHR ''Z'') c \<or> in_range (CHR ''a'') (CHR ''z'') c) \<and>
               lower_char p = lower_char c)"

fun like_match :: "string \<Rightarrow> string \<Rightarrow> bool" where
  \<comment> \<open>pattern against text: \<open>%\<close> stands for any run of characters, \<open>_\<close> for any one\<close>
  "like_match [] s = (s = [])"
| "like_match (p # ps) [] = (p = CHR ''%'' \<and> like_match ps [])"
| "like_match (p # ps) (c # cs) =
     (if p = CHR ''%'' then like_match ps (c # cs) \<or> like_match (p # ps) cs
      else (p = CHR ''_'' \<or> like_char_eq p c) \<and> like_match ps cs)"

definition sql_like :: "string \<Rightarrow> string \<Rightarrow> bool" where
  \<comment> \<open>\<open>text LIKE pattern\<close>\<close>
  "sql_like text pattern = like_match (c_text pattern) (c_text text)"

definition utf8_length :: "string \<Rightarrow> int" where
  \<comment> \<open>bytes of the UTF-8 encoding: two for a code point from 128\<close>
  "utf8_length s = sum_list (map (\<lambda>c. if c < CHR 0x80 then 1 else 2) s)"

fun insert_desc :: "pedido \<Rightarrow> pedido list \<Rightarrow> pedido list" where
  "insert_desc r [] = [r]"
| "insert_desc r (x # xs) =
     (if created_at x \<le> created_at r then r # x # xs else x # insert_desc r xs)"

fun order_by_created_at_desc :: "pedido list \<Rightarrow> pedido list" where
  \<comment> \<open>\<open>ORDER BY created_at DESC\<close>: the texts compared character by character; rows with
      equal \<open>created_at\<close> are kept in the order of insertion (SQLite leaves their order open)\<close>
  "order_by_created_at_desc [] = []"
| "order_by_created_at_desc (r # rs) = insert_desc r (order_by_created_at_desc rs)"

definition sql_limit :: "int \<Rightarrow> 'a list \<Rightarrow> 'a list" where
  \<comment> \<open>\<open>LIMIT n\<close>: a negative \<open>n\<close> is no limit\<close>
  "sql_limit n xs = (if n < 0 then xs else take (nat n) xs)"

definition is_int64 :: "int \<Rightarrow> bool" where
  \<comment> \<open>an integer that can be bound as a parameter; any other raises \<open>OverflowError\<close>\<close>
  "is_int64 n = (- (2 ^ 63) \<le> n \<and> n < 2 ^ 63)"

definition search_pedidos :: "bool \<Rightarrow> pedido list \<Rightarrow> string \<Rightarrow> int \<Rightarrow> pedido list" where
  \<comment> \<open>SQLite refuses a \<open>LIKE\<close> pattern of more than 50000 bytes when it evaluates it, that
      is, when there is a row to test and the limit is not zero\<close>
  "search_pedidos ok rows term limit =
     (let like_term = ''%'' @ term @ ''%''
      in if \<not> ok \<or> \<not> is_int64 limit then []
         else if 50000 < utf8_length like_term \<and> rows \<noteq> [] \<and> limit \<noteq> 0 then []
         else sql_limit limit
                (order_by_created_at_desc
                  (filter (\<lambda>r. sql_like (pid r) like_term \<or> sql_like (cpf r) like_term \<or>
                                sql_like (nome r) like_term) rows)))"

definition list_recent :: "bool \<Rightarrow> pedido list \<Rightarrow> int \<Rightarrow> pedido list" where
  "list_recent ok rows limit =
     (if \<not> ok \<or> \<not> is_int64 limit then []
      else sql_limit limit (order_by_created_at_desc rows))"

definition update_pedido_status ::
  "bool \<Rightarrow> datetime \<Rightarrow> pedido list \<Rightarrow> string \<Rightarrow> string \<Rightarrow> bool \<times> pedido list" where
  \<comment> \<open>an \<open>UPDATE\<close> that matches no row is not an error\<close>
  "update_pedido_status ok now rows i st =
     (if \<not> ok then (False, rows)
      else (True, map (\<lambda>r. if pid r = i then r\<lparr>status := st, updated_at := strftime now\<rparr> else r)
                      rows))"

datatype error = StoreError | KeyError | TypeError

definition init_db :: "bool \<Rightarrow> pedido list \<Rightarrow> error + pedido list" where
  \<comment> \<open>\<open>CREATE TABLE IF NOT EXISTS\<close> leaves the rows alone; a failure is raised again\<close>
  "init_db ok rows = (if ok then Inr rows else Inl StoreError)"


section \<open>The receipt\<close>





section \<open>The dialogue that adds an order\<close>

datatype conv_state =
  ASK_ID | ASK_CPF | ASK_NAME | ASK_PRODUCT | ASK_VALUE | ASK_DISCOUNT | ASK_ECONOMY |
  ASK_TRANSID | ASK_DATE_CONFIRM | END

text \<open>The messages the handlers send, by their content.\<close>

datatype reply =
  Access_denied | Ask_id | Id_generated string | Id_exists | Ask_cpf | Cpf_invalid |
  Ask_name | Name_too_short | Ask_product | Product_too_short | Ask_value | Value_invalid |
  Ask_discount | Discount_invalid | Discount_above_value | Ask_transid | Ask_date |
  Date_invalid | Saved string | Save_error | Cancelled

text \<open>
  What a handler reads from outside during one call: whether SQLite works, the readings
  of the clock, and the sixteen random bytes of \<open>uuid.uuid4()\<close>.
\<close>

record env =
  db_ok :: bool
  t_now :: datetime
  t_default :: datetime
  t_update :: datetime
  random_bytes :: "128 word"

text \<open>The state a handler works on: the table and \<open>context.user_data\<close> of the user.\<close>

record world =
  rows :: "pedido list"
  user_data :: "draft option"

type_synonym outcome = "error + (reply list \<times> conv_state \<times> world)"

definition hex_digit :: "128 word \<Rightarrow> char" where
  "hex_digit n = (''0123456789abcdef'') ! unat (n AND 0xF)"

definition hex32 :: "128 word \<Rightarrow> string" where
  \<comment> \<open>\<open>'%032x' % n\<close>\<close>
  "hex32 n = map (\<lambda>i. hex_digit (drop_bit (4 * (31 - i)) n)) [0 ..< 32]"

definition uuid4_int :: "128 word \<Rightarrow> 128 word" where
  \<comment> \<open>the variant and version bits that \<open>UUID(bytes=..., version=4)\<close> sets\<close>
  "uuid4_int r =
     (((r AND NOT (push_bit 48 0xC000)) OR push_bit 48 0x8000)
         AND NOT (push_bit 64 0xF000)) OR push_bit 76 4"

definition uuid4_str :: "128 word \<Rightarrow> string" where
  \<comment> \<open>\<open>str(uuid.uuid4())\<close>\<close>
  "uuid4_str r =
     (let h = hex32 (uuid4_int r)
      in take 8 h @ ''-'' @ take 4 (drop 8 h) @ ''-'' @ take 4 (drop 12 h) @ ''-'' @
         take 4 (drop 16 h) @ ''-'' @ drop 20 h)"

definition new_draft :: "string \<Rightarrow> draft" where
  \<comment> \<open>\<open>{'id': pid}\<close>\<close>
  "new_draft i =
     \<lparr>k_id = i, k_cpf = None, k_nome = None, k_produto = None, k_valor = None,
      k_desconto = None, k_economia = None, k_status = None, k_created_at = None,
      k_trans_id = None\<rparr>"

definition add_pedido_start :: "int option \<Rightarrow> int \<Rightarrow> world \<Rightarrow> outcome" where
  \<comment> \<open>\<open>ADMIN_ID\<close> and the id of the sender; an \<open>ADMIN_ID\<close> of 0 counts as not set\<close>
  "add_pedido_start admin_id user w =
     (if admin_id \<noteq> None \<and> admin_id \<noteq> Some 0 \<and> Some user \<noteq> admin_id
      then Inr ([Access_denied], END, w)
      else Inr ([Ask_id], ASK_ID, w))"

definition add_pedido_id :: "env \<Rightarrow> string \<Rightarrow> world \<Rightarrow> outcome" where
  "add_pedido_id ev msg w =
     (let text = sanitize_input (strip msg) 255
      in if lower text = ''gerar''
         then (let i = uuid4_str (random_bytes ev)
               in Inr ([Id_generated i, Ask_cpf], ASK_CPF, w\<lparr>user_data := Some (new_draft i)\<rparr>))
         else if get_pedido_by_id (db_ok ev) (rows w) text \<noteq> None
         then Inr ([Id_exists], ASK_ID, w)
         else Inr ([Ask_cpf], ASK_CPF, w\<lparr>user_data := Some (new_draft text)\<rparr>))"

definition add_pedido_cpf :: "env \<Rightarrow> string \<Rightarrow> world \<Rightarrow> outcome" where
  "add_pedido_cpf ev msg w =
     (let text = sanitize_input (strip msg) 255
      in if lower text = ''pular''
         then (case user_data w of
                 None \<Rightarrow> Inl KeyError
               | Some p \<Rightarrow> Inr ([Ask_name], ASK_NAME, w\<lparr>user_data := Some (p\<lparr>k_cpf := Some []\<rparr>)\<rparr>))
         else if \<not> validate_cpf text then Inr ([Cpf_invalid], ASK_CPF, w)
         else (case user_data w of
                 None \<Rightarrow> Inl KeyError
               | Some p \<Rightarrow>
                   Inr ([Ask_name], ASK_NAME,
                        w\<lparr>user_data := Some (p\<lparr>k_cpf := Some (filter isdigit text)\<rparr>)\<rparr>)))"

definition add_pedido_name :: "env \<Rightarrow> string \<Rightarrow> world \<Rightarrow> outcome" where
  "add_pedido_name ev msg w =
     (let text = sanitize_input (strip msg) 200
      in if length text < 3 then Inr ([Name_too_short], ASK_NAME, w)
         else (case user_data w of
                 None \<Rightarrow> Inl KeyError
               | Some p \<Rightarrow>
                   Inr ([Ask_product], ASK_PRODUCT, w\<lparr>user_data := Some (p\<lparr>k_nome := Some text\<rparr>)\<rparr>)))"

definition add_pedido_product :: "env \<Rightarrow> string \<Rightarrow> world \<Rightarrow> outcome" where
  "add_pedido_product ev msg w =
     (let text = sanitize_input (strip msg) 300
      in if length text < 3 then Inr ([Product_too_short], ASK_PRODUCT, w)
         else (case user_data w of
                 None \<Rightarrow> Inl KeyError
               | Some p \<Rightarrow>
                   Inr ([Ask_value], ASK_VALUE, w\<lparr>user_data := Some (p\<lparr>k_produto := Some text\<rparr>)\<rparr>)))"

definition add_pedido_value :: "env \<Rightarrow> string \<Rightarrow> world \<Rightarrow> outcome" where
  "add_pedido_value ev msg w =
     (case validate_value msg of
        None \<Rightarrow> Inr ([Value_invalid], ASK_VALUE, w)
      | Some v \<Rightarrow>
          (case user_data w of
             None \<Rightarrow> Inl KeyError
           | Some p \<Rightarrow>
               Inr ([Ask_discount], ASK_DISCOUNT, w\<lparr>user_data := Some (p\<lparr>k_valor := Some v\<rparr>)\<rparr>)))"

definition add_pedido_discount :: "env \<Rightarrow> string \<Rightarrow> world \<Rightarrow> outcome" where
  "add_pedido_discount ev msg w =
     (case validate_value msg of
        None \<Rightarrow> Inr ([Discount_invalid], ASK_DISCOUNT, w)
      | Some discount \<Rightarrow>
          (case user_data w of
             None \<Rightarrow> Inl KeyError
           | Some p \<Rightarrow>
               (case k_valor p of
                  None \<Rightarrow> Inl KeyError
                | Some v \<Rightarrow>
                    if float_gt discount v then Inr ([Discount_above_value], ASK_DISCOUNT, w)
                    else Inr ([Ask_transid], ASK_TRANSID,
                              w\<lparr>user_data :=
                                   Some (p\<lparr>k_desconto := Some discount,
                                           k_economia := Some discount\<rparr>)\<rparr>))))"

definition add_pedido_transid :: "env \<Rightarrow> string \<Rightarrow> world \<Rightarrow> outcome" where
  "add_pedido_transid ev msg w =
     (let text = sanitize_input (strip msg) 255
      in case user_data w of
           None \<Rightarrow> Inl KeyError
         | Some p \<Rightarrow>
             Inr ([Ask_date], ASK_DATE_CONFIRM,
                  w\<lparr>user_data :=
                       Some (p\<lparr>k_trans_id := Some (if lower text = ''pular'' then [] else text)\<rparr>)\<rparr>))"

definition add_pedido_date :: "env \<Rightarrow> string \<Rightarrow> world \<Rightarrow> outcome" where
  "add_pedido_date ev msg w =
     (case validate_date (t_now ev) (strip msg) of
        None \<Rightarrow> Inr ([Date_invalid], ASK_DATE_CONFIRM, w)
      | Some date_validated \<Rightarrow>
          if date_validated = [] then Inr ([Date_invalid], ASK_DATE_CONFIRM, w)
          else (case user_data w of
                  None \<Rightarrow> Inl KeyError
                | Some p0 \<Rightarrow>
                    let p = p0\<lparr>k_created_at := Some date_validated, k_status := Some ''pendente''\<rparr>;
                        (success, rows') = add_pedido_db (db_ok ev) (t_default ev) (t_update ev) (rows w) p
                    in Inr ([if success then Saved (k_id p) else Save_error], END,
                            \<lparr>rows = rows', user_data = None\<rparr>)))"

definition cancel :: "world \<Rightarrow> outcome" where
  "cancel w = Inr ([Cancelled], END, w\<lparr>user_data := None\<rparr>)"

fun handle :: "conv_state \<Rightarrow> env \<Rightarrow> string \<Rightarrow> world \<Rightarrow> outcome" where
  \<comment> \<open>the table \<open>states\<close> of the conversation handler in \<open>main\<close>: the handler of a text
      message in each state; no handler is registered for \<open>ASK_ECONOMY\<close>\<close>
  "handle ASK_ID = add_pedido_id"
| "handle ASK_CPF = add_pedido_cpf"
| "handle ASK_NAME = add_pedido_name"
| "handle ASK_PRODUCT = add_pedido_product"
| "handle ASK_VALUE = add_pedido_value"
| "handle ASK_DISCOUNT = add_pedido_discount"
| "handle ASK_TRANSID = add_pedido_transid"
| "handle ASK_DATE_CONFIRM = add_pedido_date"
| "handle st = (\<lambda>ev msg w. Inr ([], st, w))"


section \<open>The bot as a state machine\<close>

text \<open>
  The conversation handler keeps one state per user; \<open>context.user_data\<close> is per user
  too, and all users share the table. An update is a command or a text message of a user,
  or the press of the button that marks an order as delivered. A handler that raises
  leaves everything as it was.
\<close>

datatype event = Start | Text string | Cancel | Mark_delivered string

record bot =
  table :: "pedido list"
  convs :: "int \<Rightarrow> conv_state"
  datas :: "int \<Rightarrow> draft option"

definition initial_bot :: bot where
  "initial_bot = \<lparr>table = [], convs = (\<lambda>u. END), datas = (\<lambda>u. None)\<rparr>"

definition commit :: "bot \<Rightarrow> int \<Rightarrow> outcome \<Rightarrow> bot" where
  "commit b u out =
     (case out of
        Inl err \<Rightarrow> b
      | Inr (replies, st, w) \<Rightarrow>
          \<lparr>table = rows w, convs = (convs b)(u := st), datas = (datas b)(u := user_data w)\<rparr>)"

definition step :: "int option \<Rightarrow> bot \<Rightarrow> int \<times> env \<times> event \<Rightarrow> bot" where
  \<comment> \<open>\<open>/add_pedido\<close> is an entry point only outside a conversation; text and \<open>/cancel\<close>
      reach the conversation handler only inside one\<close>
  "step admin_id b = (\<lambda>(u, e, x).
     let w = \<lparr>rows = table b, user_data = datas b u\<rparr>
     in case x of
          Start \<Rightarrow> if convs b u = END then commit b u (add_pedido_start admin_id u w) else b
        | Text msg \<Rightarrow> if convs b u = END then b else commit b u (handle (convs b u) e msg w)
        | Cancel \<Rightarrow> if convs b u = END then b else commit b u (cancel w)
        | Mark_delivered i \<Rightarrow>
            b\<lparr>table := snd (update_pedido_status (db_ok e) (t_now e) (table b) i ''entregue'')\<rparr>)"

definition run :: "int option \<Rightarrow> (int \<times> env \<times> event) list \<Rightarrow> bot" where
  "run admin_id updates = foldl (step admin_id) initial_bot updates"

definition row_bounded :: "pedido \<Rightarrow> bool" where
  "row_bounded r =
     (length (pid r) \<le> 255 \<and> length (cpf r) \<le> 255 \<and> length (trans_id r) \<le> 255 \<and>
      length (nome r) \<le> 200 \<and> length (produto r) \<le> 300)"

definition draft_bounded :: "draft \<Rightarrow> bool" where
  "draft_bounded p =
     (length (k_id p) \<le> 255 \<and> length (get_or (k_cpf p) []) \<le> 255 \<and>
      length (get_or (k_trans_id p) []) \<le> 255 \<and> length (get_or (k_nome p) []) \<le> 200 \<and>
      length (get_or (k_produto p) []) \<le> 300)"

definition world_bounded :: "world \<Rightarrow> bool" where
  "world_bounded w =
     (list_all row_bounded (rows w) \<and> (case user_data w of None \<Rightarrow> True | Some p \<Rightarrow> draft_bounded p))"

definition bot_bounded :: "bot \<Rightarrow> bool" where
  "bot_bounded b = (\<forall>u. world_bounded \<lparr>rows = table b, user_data = datas b u\<rparr>)"





fun float_le :: "pyfloat \<Rightarrow> pyfloat \<Rightarrow> bool" where
  \<comment> \<open>\<open>x <= y\<close>\<close>
  "float_le NaN y = False"
| "float_le x NaN = False"
| "float_le (Infinity s1) (Infinity s2) = (s1 \<or> \<not> s2)"
| "float_le (Infinity s1) (Finite s2 m2 e2) = s1"
| "float_le (Finite s1 m1 e1) (Infinity s2) = (\<not> s2)"
| "float_le (Finite s1 m1 e1) (Finite s2 m2 e2) =
     (scaled s1 m1 e1 (min e1 e2) \<le> scaled s2 m2 e2 (min e1 e2))"

section \<open>Reachable tables\<close>

text \<open>
  The tables the program can produce: it starts from the empty table, and rows are written
  by \<open>add_pedido_db\<close> and \<open>update_pedido_status\<close> only.
\<close>

inductive store_reachable :: "pedido list \<Rightarrow> bool" where
  empty: "store_reachable []"
| insert: "store_reachable rs \<Longrightarrow> store_reachable (snd (add_pedido_db ok t1 t2 rs p))"
| update: "store_reachable rs \<Longrightarrow> store_reachable (snd (update_pedido_status ok t rs i st))"


section \<open>The texts that are dates\<close>

text \<open>
  The date texts in words: day, month, hour, minute and second written with two digits,
  or with one digit when below ten (the day also as a blank and one digit); the year with
  exactly four digits; the fields separated by \<open>/\<close>, \<open>/\<close>, white space, \<open>:\<close> and \<open>:\<close>.
\<close>

definition pad4 :: "int \<Rightarrow> string" where
  \<comment> \<open>four digits, zero-filled\<close>
  "pad4 y =
     [digit_char (y div 1000), digit_char (y div 100 mod 10), digit_char (y div 10 mod 10),
      digit_char (y mod 10)]"

definition two_digits :: "int \<Rightarrow> string" where
  "two_digits v = [digit_char (v div 10), digit_char (v mod 10)]"

definition field_forms :: "int \<Rightarrow> string list" where
  \<comment> \<open>the ways to write a field: two digits, or one digit below ten\<close>
  "field_forms v = (if v < 10 then [two_digits v, [digit_char v]] else [two_digits v])"

definition day_forms :: "int \<Rightarrow> string list" where
  "day_forms v = field_forms v @ (if v < 10 then [[CHR '' '', digit_char v]] else [])"

definition lenient_text :: "datetime \<Rightarrow> string \<Rightarrow> bool" where
  "lenient_text dt s =
     (\<exists>D Mo W H Mi S.
        D \<in> set (day_forms (day dt)) \<and> Mo \<in> set (field_forms (month dt)) \<and>
        W \<noteq> [] \<and> list_all isspace W \<and>
        H \<in> set (field_forms (hour dt)) \<and> Mi \<in> set (field_forms (minute dt)) \<and>
        S \<in> set (field_forms (second dt)) \<and>
        s = D @ ''/'' @ Mo @ ''/'' @ pad4 (year dt) @ W @ H @ '':'' @ Mi @ '':'' @ S)"

definition strict_text :: "datetime \<Rightarrow> string" where
  \<comment> \<open>the text in the form \<open>DD/MM/YYYY HH:MM:SS\<close>\<close>
  "strict_text dt =
     two_digits (day dt) @ ''/'' @ two_digits (month dt) @ ''/'' @ pad4 (year dt) @ '' '' @
     two_digits (hour dt) @ '':'' @ two_digits (minute dt) @ '':'' @ two_digits (second dt)"

section \<open>Occurrence of a term in a text\<close>

fun starts_by :: "(char \<Rightarrow> char \<Rightarrow> bool) \<Rightarrow> string \<Rightarrow> string \<Rightarrow> bool" where
  \<comment> \<open>the text begins with the term, characters compared by the given relation\<close>
  "starts_by R [] s = True"
| "starts_by R (p # ps) [] = False"
| "starts_by R (p # ps) (c # cs) = (R p c \<and> starts_by R ps cs)"

fun occurs_by :: "(char \<Rightarrow> char \<Rightarrow> bool) \<Rightarrow> string \<Rightarrow> string \<Rightarrow> bool" where
  \<comment> \<open>the term occurs somewhere in the text\<close>
  "occurs_by R t [] = starts_by R t []"
| "occurs_by R t (c # cs) = (starts_by R t (c # cs) \<or> occurs_by R t cs)"

definition is_substring :: "string \<Rightarrow> string \<Rightarrow> bool" where
  \<comment> \<open>case-sensitive substring, as the specification words it\<close>
  "is_substring t s = occurs_by (=) t s"

definition plain_term :: "string \<Rightarrow> bool" where
  \<comment> \<open>a term without the wildcards of \<open>LIKE\<close> and without NUL\<close>
  "plain_term t = list_all (\<lambda>c. c \<noteq> CHR ''%'' \<and> c \<noteq> CHR ''_'' \<and> c \<noteq> CHR 0x00) t"

definition matches_term :: "string \<Rightarrow> pedido \<Rightarrow> bool" where
  \<comment> \<open>the \<open>WHERE\<close> clause of the search\<close>
  "matches_term term r =
     (sql_like (pid r) (''%'' @ term @ ''%'') \<or> sql_like (cpf r) (''%'' @ term @ ''%'') \<or>
      sql_like (nome r) (''%'' @ term @ ''%''))"

section \<open>Sample data\<close>

definition sample_time :: datetime where
  "sample_time = \<lparr>day = 4, month = 11, year = 2026, hour = 7, minute = 3, second = 9\<rparr>"

definition sample_env :: env where
  "sample_env =
     \<lparr>db_ok = True, t_now = sample_time, t_default = sample_time, t_update = sample_time,
      random_bytes = 0\<rparr>"

definition sample_dialogue :: "(int \<times> env \<times> event) list" where
  \<comment> \<open>one user registers the order \<open>ORD1\<close>\<close>
  "sample_dialogue =
     map (\<lambda>x. (7, sample_env, x))
       [Start, Text ''ORD1'', Text ''pular'', Text ''Maria Silva'', Text ''Wireless Mouse'',
        Text ''150,00'', Text ''10'', Text ''pular'', Text ''agora'']"

definition sample_row :: pedido where
  "sample_row =
     \<lparr>pid = ''ORD1'', cpf = [], nome = ''Maria Silva'', produto = ''Wireless Mouse'',
      valor = Finite False 5277655813324800 (- 45),
      desconto = Some (Finite False 5629499534213120 (- 49)),
      economia = Some (Finite False 5629499534213120 (- 49)),
      status = ''pendente'', created_at = ''04/11/2026 07:03:09'', trans_id = [],
      updated_at = ''04/11/2026 07:03:09''\<rparr>"

definition sample_draft :: draft where
  "sample_draft =
     \<lparr>k_id = ''ORD1'', k_cpf = Some [], k_nome = Some ''Maria Silva'',
      k_produto = Some ''Wireless Mouse'',
      k_valor = Some (Finite False 5277655813324800 (- 45)),
      k_desconto = Some (Finite False 5629499534213120 (- 49)),
      k_economia = Some (Finite False 5629499534213120 (- 49)),
      k_status = Some ''pendente'', k_created_at = Some ''04/11/2026 07:03:09'',
      k_trans_id = Some []\<rparr>"

definition sample_discount_world :: world where
  \<comment> \<open>a dialogue in the state \<open>ASK_DISCOUNT\<close> with the value 150.00 accepted\<close>
  "sample_discount_world =
     \<lparr>rows = [],
      user_data = Some ((new_draft ''ORD1'')\<lparr>k_valor := Some (Finite False 5277655813324800 (- 45))\<rparr>)\<rparr>"

definition sample_date_world :: world where
  \<comment> \<open>a dialogue in the state \<open>ASK_DATE_CONFIRM\<close>, with a CPF and a transaction id,
      the date still to come\<close>
  "sample_date_world =
     \<lparr>rows = [],
      user_data =
        Some (sample_draft\<lparr>k_cpf := Some ''52998224725'', k_trans_id := Some ''TX-77'',
                           k_status := None, k_created_at := None\<rparr>)\<rparr>"

definition sample_row_of :: "string \<Rightarrow> string \<Rightarrow> string \<Rightarrow> pedido" where
  \<comment> \<open>the sample order under another id, with another customer and creation time\<close>
  "sample_row_of i n t = sample_row\<lparr>pid := i, nome := n, created_at := t, updated_at := t\<rparr>"

section \<open>Properties of the table\<close>

lemma add_pedido_db_duplicate:
  "k_id p \<in> set (map pid rs) \<Longrightarrow> add_pedido_db ok t1 t2 rs p = (False, rs)"
  by (simp add: add_pedido_db_def)

lemma add_pedido_db_ids:
  "map pid (snd (add_pedido_db ok t1 t2 rs p)) = map pid rs \<or>
   (k_id p \<notin> set (map pid rs) \<and>
    map pid (snd (add_pedido_db ok t1 t2 rs p)) = map pid rs @ [k_id p])"
  by (auto simp: add_pedido_db_def split: option.splits)

lemma update_pedido_status_ids:
  "map pid (snd (update_pedido_status ok t rs i st)) = map pid rs"
  by (induction rs) (auto simp: update_pedido_status_def)

lemma store_reachable_distinct: "store_reachable rs \<Longrightarrow> distinct (map pid rs)"
proof (induction rule: store_reachable.induct)
  case empty
  show ?case by simp
next
  case (insert rs ok t1 t2 p)
  from add_pedido_db_ids [of ok t1 t2 rs p] insert.IH show ?case by auto
next
  case (update rs ok t i st)
  then show ?case by (simp add: update_pedido_status_ids)
qed

lemma sample_insert:
  "add_pedido_db True sample_time sample_time [] sample_draft = (True, [sample_row])"
  unfolding sample_time_def sample_draft_def sample_row_def by code_simp

lemma sample_reachable: "store_reachable [sample_row]"
  using store_reachable.insert [OF store_reachable.empty, of True sample_time sample_time sample_draft]
  by (simp add: sample_insert)

text \<open>
  C7. The order id is unique in the table at all times: inserting a record whose id is
  already there fails and leaves the table as it was, whatever else the call is given, and
  no table the program can reach holds two rows with the same id.
\<close>

theorem id_unique:
  "(k_id p \<in> set (map pid rs) \<longrightarrow> add_pedido_db ok t1 t2 rs p = (False, rs)) \<and>
   (store_reachable rs' \<longrightarrow> distinct (map pid rs'))"
  using add_pedido_db_duplicate store_reachable_distinct by blast

theorem id_unique_witness:
  "k_id sample_draft \<in> set (map pid [sample_row]) \<and>
   add_pedido_db True sample_time sample_time [sample_row] sample_draft = (False, [sample_row]) \<and>
   store_reachable [sample_row] \<and> distinct (map pid [sample_row])"
proof -
  have m: "k_id sample_draft \<in> set (map pid [sample_row])"
    by (simp add: sample_draft_def sample_row_def)
  from id_unique [where p = sample_draft and rs = "[sample_row]" and rs' = "[sample_row]"
      and ok = True and ?t1.0 = sample_time and ?t2.0 = sample_time]
  show ?thesis using m sample_reachable by simp
qed

lemma update_absent:
  "i \<notin> set (map pid rs) \<Longrightarrow> update_pedido_status True now rs i st = (True, rs)"
  by (induction rs) (auto simp: update_pedido_status_def)

lemma update_rows:
  "length (snd (update_pedido_status True now rs i st)) = length rs \<and>
   (\<forall>k < length rs.
      snd (update_pedido_status True now rs i st) ! k =
        (if pid (rs ! k) = i then (rs ! k)\<lparr>status := st, updated_at := strftime now\<rparr> else rs ! k))"
  by (simp add: update_pedido_status_def)

text \<open>
  The status update on an id that is not in the table reports success and changes nothing.
\<close>

theorem update_status_counterexample:
  "''ORD2'' \<notin> set (map pid [sample_row]) \<and>
   update_pedido_status True sample_time [sample_row] ''ORD2'' ''entregue'' = (True, [sample_row])"
  by (simp add: update_pedido_status_def sample_row_def)

text \<open>
  C2 (as amended). \<open>update_pedido_status\<close> reports a failure only when the store
  itself fails, and then the table is unchanged. When the store works it reports
  success: for an id that is not in the table nothing changes; for an id that is in the
  table the row gets the new status and a refreshed \<open>updated_at\<close>, and every other row
  stays as it was.
\<close>

theorem update_status_result:
  "(i \<notin> set (map pid rs) \<longrightarrow> update_pedido_status True now rs i st = (True, rs)) \<and>
   update_pedido_status False now rs i st = (False, rs) \<and>
   fst (update_pedido_status True now rs i st) = True \<and>
   length (snd (update_pedido_status True now rs i st)) = length rs \<and>
   (\<forall>k < length rs.
      pid (rs ! k) = i \<longrightarrow>
        snd (update_pedido_status True now rs i st) ! k =
          (rs ! k)\<lparr>status := st, updated_at := strftime now\<rparr>) \<and>
   (\<forall>k < length rs.
      pid (rs ! k) \<noteq> i \<longrightarrow> snd (update_pedido_status True now rs i st) ! k = rs ! k)"
  using update_absent [of i rs now st] update_rows [of now rs i st]
  by (simp add: update_pedido_status_def)

theorem update_status_result_witness:
  "''ORD2'' \<notin> set (map pid [sample_row]) \<and>
   update_pedido_status True sample_time [sample_row] ''ORD2'' ''entregue'' = (True, [sample_row]) \<and>
   pid ([sample_row] ! 0) = ''ORD1'' \<and>
   snd (update_pedido_status True sample_time [sample_row] ''ORD1'' ''entregue'') ! 0 =
     sample_row\<lparr>status := ''entregue'', updated_at := ''04/11/2026 07:03:09''\<rparr>"
proof -
  have t: "strftime sample_time = ''04/11/2026 07:03:09''"
    unfolding sample_time_def by code_simp
  have a: "''ORD2'' \<notin> set (map pid [sample_row])" by (simp add: sample_row_def)
  have b: "pid ([sample_row] ! 0) = ''ORD1''" by (simp add: sample_row_def)
  from update_status_result [of "''ORD2''" "[sample_row]" sample_time "''entregue''"] a
  have c: "update_pedido_status True sample_time [sample_row] ''ORD2'' ''entregue'' = (True, [sample_row])"
    by blast
  from update_status_result [of "''ORD1''" "[sample_row]" sample_time "''entregue''"] b
  have d: "snd (update_pedido_status True sample_time [sample_row] ''ORD1'' ''entregue'') ! 0 =
     sample_row\<lparr>status := ''entregue'', updated_at := strftime sample_time\<rparr>"
    by simp
  show ?thesis using a b c d t by simp
qed

text \<open>
  A read on a failing store gives what a read that finds nothing gives: the caller of
  \<open>get_pedido_by_id\<close> or \<open>search_pedidos\<close> cannot tell the two apart.
\<close>

theorem store_failure_counterexample:
  "get_pedido_by_id False [sample_row] ''ORD1'' = get_pedido_by_id True [] ''ORD1'' \<and>
   get_pedido_by_id True [sample_row] ''ORD1'' = Some sample_row \<and>
   search_pedidos False [sample_row] ''ORD1'' 20 = search_pedidos True [] ''ORD1'' 20 \<and>
   search_pedidos True [sample_row] ''ORD1'' 20 = [sample_row]"
  unfolding sample_row_def by code_simp

text \<open>
  C4 (as amended). A store failure during an insert or a status update is reported to the
  caller as a failed operation (\<open>False\<close>, the table unchanged), and a failure of
  \<open>init_db\<close> is raised again. A failure during \<open>get_pedido_by_id\<close>, \<open>search_pedidos\<close>
  or \<open>list_recent\<close> is not reported: the call returns \<open>None\<close> or the empty list, which is
  also the result of a read that finds nothing.
\<close>

theorem store_failure_results:
  "add_pedido_db False t1 t2 rs p = (False, rs) \<and>
   update_pedido_status False t rs i st = (False, rs) \<and>
   init_db False rs = Inl StoreError \<and>
   get_pedido_by_id False rs i = None \<and> get_pedido_by_id True [] i = None \<and>
   search_pedidos False rs term limit = [] \<and> search_pedidos True [] term limit = [] \<and>
   list_recent False rs limit = [] \<and> list_recent True [] limit = []"
  by (simp add: add_pedido_db_def update_pedido_status_def init_db_def get_pedido_by_id_def
      search_pedidos_def list_recent_def sql_limit_def)

theorem store_failure_results_witness:
  "add_pedido_db False sample_time sample_time [sample_row] sample_draft = (False, [sample_row]) \<and>
   get_pedido_by_id False [sample_row] ''ORD1'' = None \<and>
   search_pedidos False [sample_row] ''ORD1'' 20 = []"
  using store_failure_results [of sample_time sample_time "[sample_row]" sample_draft
      sample_time "''ORD1''" "''entregue''" "''ORD1''" 20]
  by simp

section \<open>Properties of the dialogue\<close>

lemma round_ratio_not_NaN: "round_ratio s a b \<noteq> NaN"
  by (simp add: round_ratio_def Let_def)

lemma round2_not_NaN: "x \<noteq> NaN \<Longrightarrow> round2 x \<noteq> NaN"
  by (cases x) (simp_all add: round_ratio_not_NaN)

lemma round_ratio_positive_ge0: "float_ge0 (round_ratio False a b)"
  by (simp add: round_ratio_def Let_def)

lemma cents_zero: "cents 0 e = 0"
  by (simp add: cents_def round_half_even_def)

lemma round2_ge0: "float_ge0 x \<Longrightarrow> float_ge0 (round2 x)"
proof (cases x)
  case (Finite s m e)
  assume "float_ge0 x"
  with Finite have "\<not> s \<or> m = 0" by simp
  then show ?thesis
  proof
    assume "\<not> s"
    with Finite show ?thesis by (simp add: round_ratio_positive_ge0)
  next
    assume "m = 0"
    with Finite show ?thesis by (simp add: cents_zero round_ratio_def)
  qed
qed simp_all

lemma validate_value_ge0:
  assumes "validate_value msg = Some d"
  shows "float_ge0 d" and "d \<noteq> NaN"
proof -
  from assms obtain v where v: "float_ge0 v" "d = round2 v"
    by (auto simp: validate_value_def split: option.splits if_splits)
  from v show "float_ge0 d" by (simp add: round2_ge0)
  from v have "v \<noteq> NaN" by auto
  with v show "d \<noteq> NaN" by (simp add: round2_not_NaN)
qed

lemma float_gt_le: "x \<noteq> NaN \<Longrightarrow> y \<noteq> NaN \<Longrightarrow> (\<not> float_gt x y) = float_le x y"
  by (cases x; cases y) auto

text \<open>
  C5. In the state \<open>ASK_DISCOUNT\<close>, with a value \<open>v\<close> already in the draft, a message that
  parses to a discount \<open>d\<close> above \<open>v\<close> is rejected: the state stays \<open>ASK_DISCOUNT\<close> and the
  table and the draft, its value included, are unchanged. Any other discount that parses
  is not negative and not above \<open>v\<close>; it is written to both \<open>desconto\<close> and \<open>economia\<close>, the
  rest of the draft stays as it was, and the dialogue moves on.
\<close>

theorem discount_step:
  assumes "user_data w = Some p" and "k_valor p = Some v" and "validate_value msg = Some d"
  shows "(float_gt d v \<longrightarrow>
            handle ASK_DISCOUNT ev msg w = Inr ([Discount_above_value], ASK_DISCOUNT, w)) \<and>
         (\<not> float_gt d v \<longrightarrow>
            float_ge0 d \<and> (v \<noteq> NaN \<longrightarrow> float_le d v) \<and>
            handle ASK_DISCOUNT ev msg w =
              Inr ([Ask_transid], ASK_TRANSID,
                   w\<lparr>user_data := Some (p\<lparr>k_desconto := Some d, k_economia := Some d\<rparr>)\<rparr>) \<and>
            k_valor (p\<lparr>k_desconto := Some d, k_economia := Some d\<rparr>) = Some v)"
proof -
  have ge: "float_ge0 d" and nn: "d \<noteq> NaN"
    using validate_value_ge0 [OF assms(3)] by simp_all
  have le: "\<not> float_gt d v \<Longrightarrow> v \<noteq> NaN \<Longrightarrow> float_le d v"
    using float_gt_le [OF nn] by simp
  show ?thesis
    using assms ge le by (simp add: add_pedido_discount_def)
qed


theorem discount_step_witness:
  "handle ASK_DISCOUNT sample_env ''151'' sample_discount_world =
     Inr ([Discount_above_value], ASK_DISCOUNT, sample_discount_world) \<and>
   handle ASK_DISCOUNT sample_env ''10'' sample_discount_world =
     Inr ([Ask_transid], ASK_TRANSID,
          sample_discount_world\<lparr>user_data :=
             Some ((new_draft ''ORD1'')\<lparr>k_valor := Some (Finite False 5277655813324800 (- 45)),
                    k_desconto := Some (Finite False 5629499534213120 (- 49)),
                    k_economia := Some (Finite False 5629499534213120 (- 49))\<rparr>)\<rparr>)"
proof -
  let ?p = "(new_draft ''ORD1'')\<lparr>k_valor := Some (Finite False 5277655813324800 (- 45))\<rparr>"
  let ?v = "Finite False 5277655813324800 (- 45)"
  have u: "user_data sample_discount_world = Some ?p" by (simp add: sample_discount_world_def)
  have k: "k_valor ?p = Some ?v" by simp
  have a: "validate_value ''151'' = Some (Finite False 5312840185413632 (- 45))" by code_simp
  have b: "validate_value ''10'' = Some (Finite False 5629499534213120 (- 49))" by code_simp
  have ga: "float_gt (Finite False 5312840185413632 (- 45)) ?v" by code_simp
  have gb: "\<not> float_gt (Finite False 5629499534213120 (- 49)) ?v" by code_simp
  from discount_step [OF u k a, of sample_env] ga
  have 1: "handle ASK_DISCOUNT sample_env ''151'' sample_discount_world =
     Inr ([Discount_above_value], ASK_DISCOUNT, sample_discount_world)" by blast
  from discount_step [OF u k b, of sample_env] gb
  have 2: "handle ASK_DISCOUNT sample_env ''10'' sample_discount_world =
     Inr ([Ask_transid], ASK_TRANSID,
          sample_discount_world\<lparr>user_data := Some (?p\<lparr>k_desconto := Some (Finite False 5629499534213120 (- 49)),
                    k_economia := Some (Finite False 5629499534213120 (- 49))\<rparr>)\<rparr>)" by blast
  from 1 2 show ?thesis by simp
qed

lemma strftime_not_empty: "strftime dt \<noteq> []"
  by (simp add: strftime_def)

lemma validate_date_not_empty: "validate_date now s = Some d \<Longrightarrow> d \<noteq> []"
  by (auto simp: validate_date_def strftime_not_empty split: if_splits option.splits)

lemma sql_real_None: "(sql_real x = None) = (x = NaN)"
  by (cases x) simp_all

lemma add_pedido_db_success:
  "fst (add_pedido_db ok t1 t2 rs p) =
     (ok \<and> k_id p \<notin> set (map pid rs) \<and> get_or (k_valor p) float_zero \<noteq> NaN)"
  using sql_real_None [of "get_or (k_valor p) float_zero"]
  by (auto simp: add_pedido_db_def split: option.splits)

lemma sql_real_same: "sql_real x = Some y \<Longrightarrow> float_le x y \<and> float_le y x"
  by (cases x) (auto simp: float_zero_def scaled_def split: if_splits)

lemma sql_real_amount:
  "x \<noteq> NaN \<Longrightarrow> \<exists>y. sql_real x = Some y \<and> float_le y x \<and> float_le x y"
  using sql_real_same [of x] sql_real_None [of x] by (cases "sql_real x") simp_all

lemma find_new_row:
  "i \<notin> set (map pid rs) \<Longrightarrow> pid r = i \<Longrightarrow> find (\<lambda>r. pid r = i) (rs @ [r]) = Some r"
  by (induction rs) auto

text \<open>
  C6. When the date is accepted in the state \<open>ASK_DATE_CONFIRM\<close>, the draft, completed with
  the date and the status \<open>pendente\<close>, is written to the table. The write succeeds when the
  store works, the id is not in the table yet and the value is a number. The table then
  gains one row, which holds the id, the CPF, the name, the product and the transaction id
  of the draft, its three amounts (each equal as a number to the amount of the draft), the
  status \<open>pendente\<close>, the accepted date and the time of the write; that row is what a
  look-up of the id returns afterwards, and the reply names the id. Otherwise the table is
  unchanged and the reply is the error message. In both cases the conversation ends and
  the draft of the user is cleared.
\<close>

theorem finalize_clears_session:
  assumes "validate_date (t_now ev) (strip msg) = Some dv" and "user_data w = Some p"
  shows "\<exists>success rows'.
           handle ASK_DATE_CONFIRM ev msg w =
             Inr ([if success then Saved (k_id p) else Save_error], END,
                  \<lparr>rows = rows', user_data = None\<rparr>) \<and>
           success = (db_ok ev \<and> k_id p \<notin> set (map pid (rows w)) \<and>
                      get_or (k_valor p) float_zero \<noteq> NaN) \<and>
           (if success
            then \<exists>v. sql_real (get_or (k_valor p) float_zero) = Some v \<and>
                   float_le v (get_or (k_valor p) float_zero) \<and>
                   float_le (get_or (k_valor p) float_zero) v \<and>
                   (get_or (k_desconto p) float_zero \<noteq> NaN \<longrightarrow>
                      (\<exists>d. sql_real (get_or (k_desconto p) float_zero) = Some d \<and>
                         float_le d (get_or (k_desconto p) float_zero) \<and>
                         float_le (get_or (k_desconto p) float_zero) d)) \<and>
                   (get_or (k_economia p) float_zero \<noteq> NaN \<longrightarrow>
                      (\<exists>ec. sql_real (get_or (k_economia p) float_zero) = Some ec \<and>
                         float_le ec (get_or (k_economia p) float_zero) \<and>
                         float_le (get_or (k_economia p) float_zero) ec)) \<and>
                   rows' = rows w @
                     [\<lparr>pid = k_id p, cpf = get_or (k_cpf p) [], nome = get_or (k_nome p) [],
                       produto = get_or (k_produto p) [], valor = v,
                       desconto = sql_real (get_or (k_desconto p) float_zero),
                       economia = sql_real (get_or (k_economia p) float_zero),
                       status = ''pendente'', created_at = dv,
                       trans_id = get_or (k_trans_id p) [],
                       updated_at = strftime (t_update ev)\<rparr>] \<and>
                   get_pedido_by_id True rows' (k_id p) = Some (last rows')
            else rows' = rows w)"
proof -
  let ?p = "p\<lparr>k_created_at := Some dv, k_status := Some ''pendente''\<rparr>"
  let ?res = "add_pedido_db (db_ok ev) (t_default ev) (t_update ev) (rows w) ?p"
  let ?V = "get_or (k_valor p) float_zero"
  let ?ok = "db_ok ev \<and> k_id p \<notin> set (map pid (rows w)) \<and> ?V \<noteq> NaN"
  from assms(1) have ne: "dv \<noteq> []" by (rule validate_date_not_empty)
  have h: "handle ASK_DATE_CONFIRM ev msg w =
             Inr ([if fst ?res then Saved (k_id p) else Save_error], END,
                  \<lparr>rows = snd ?res, user_data = None\<rparr>)"
    using assms ne by (simp add: add_pedido_date_def split_beta)
  have s: "fst ?res = ?ok"
    by (simp add: add_pedido_db_success)
  show ?thesis
  proof (cases ?ok)
    case False
    then have "snd ?res = rows w"
      using sql_real_None [of ?V] by (auto simp: add_pedido_db_def split: option.splits)
    with h s False show ?thesis by auto
  next
    case True
    then obtain v where v: "sql_real ?V = Some v" "float_le v ?V" "float_le ?V v"
      using sql_real_amount [of ?V] by blast
    let ?r = "\<lparr>pid = k_id p, cpf = get_or (k_cpf p) [], nome = get_or (k_nome p) [],
               produto = get_or (k_produto p) [], valor = v,
               desconto = sql_real (get_or (k_desconto p) float_zero),
               economia = sql_real (get_or (k_economia p) float_zero),
               status = ''pendente'', created_at = dv,
               trans_id = get_or (k_trans_id p) [],
               updated_at = strftime (t_update ev)\<rparr>"
    have r: "snd ?res = rows w @ [?r]"
      using True v(1) by (simp add: add_pedido_db_def get_or_def)
    have g: "get_pedido_by_id True (rows w @ [?r]) (k_id p) = Some (last (rows w @ [?r]))"
      using True find_new_row [of "k_id p" "rows w" ?r] by (simp add: get_pedido_by_id_def)
    have d: "get_or (k_desconto p) float_zero \<noteq> NaN \<longrightarrow>
                      (\<exists>d. sql_real (get_or (k_desconto p) float_zero) = Some d \<and>
                         float_le d (get_or (k_desconto p) float_zero) \<and>
                         float_le (get_or (k_desconto p) float_zero) d)"
      using sql_real_amount by blast
    have e: "get_or (k_economia p) float_zero \<noteq> NaN \<longrightarrow>
                      (\<exists>ec. sql_real (get_or (k_economia p) float_zero) = Some ec \<and>
                         float_le ec (get_or (k_economia p) float_zero) \<and>
                         float_le (get_or (k_economia p) float_zero) ec)"
      using sql_real_amount by blast
    from v d e g
    have "\<exists>v. sql_real ?V = Some v \<and> float_le v ?V \<and> float_le ?V v \<and>
                   (get_or (k_desconto p) float_zero \<noteq> NaN \<longrightarrow>
                      (\<exists>d. sql_real (get_or (k_desconto p) float_zero) = Some d \<and>
                         float_le d (get_or (k_desconto p) float_zero) \<and>
                         float_le (get_or (k_desconto p) float_zero) d)) \<and>
                   (get_or (k_economia p) float_zero \<noteq> NaN \<longrightarrow>
                      (\<exists>ec. sql_real (get_or (k_economia p) float_zero) = Some ec \<and>
                         float_le ec (get_or (k_economia p) float_zero) \<and>
                         float_le (get_or (k_economia p) float_zero) ec)) \<and>
                   rows w @ [?r] = rows w @
                     [\<lparr>pid = k_id p, cpf = get_or (k_cpf p) [], nome = get_or (k_nome p) [],
                       produto = get_or (k_produto p) [], valor = v,
                       desconto = sql_real (get_or (k_desconto p) float_zero),
                       economia = sql_real (get_or (k_economia p) float_zero),
                       status = ''pendente'', created_at = dv,
                       trans_id = get_or (k_trans_id p) [],
                       updated_at = strftime (t_update ev)\<rparr>] \<and>
                   get_pedido_by_id True (rows w @ [?r]) (k_id p) = Some (last (rows w @ [?r]))"
      by (intro exI [of _ v] conjI) simp_all
    with h s r True show ?thesis
      by (intro exI [of _ True] exI [of _ "rows w @ [?r]"]) simp
  qed
qed

theorem finalize_clears_session_witness:
  "validate_date (t_now sample_env) (strip ''agora'') = Some ''04/11/2026 07:03:09'' \<and>
   user_data sample_date_world =
     Some (sample_draft\<lparr>k_cpf := Some ''52998224725'', k_trans_id := Some ''TX-77'',
                        k_status := None, k_created_at := None\<rparr>) \<and>
   handle ASK_DATE_CONFIRM sample_env ''agora'' sample_date_world =
     Inr ([Saved ''ORD1''], END,
          \<lparr>rows = [sample_row\<lparr>cpf := ''52998224725'', trans_id := ''TX-77''\<rparr>],
           user_data = None\<rparr>) \<and>
   get_pedido_by_id True [sample_row\<lparr>cpf := ''52998224725'', trans_id := ''TX-77''\<rparr>] ''ORD1'' =
     Some (sample_row\<lparr>cpf := ''52998224725'', trans_id := ''TX-77''\<rparr>) \<and>
   handle ASK_DATE_CONFIRM (sample_env\<lparr>db_ok := False\<rparr>) ''agora'' sample_date_world =
     Inr ([Save_error], END, \<lparr>rows = [], user_data = None\<rparr>)"
proof -
  let ?p = "sample_draft\<lparr>k_cpf := Some ''52998224725'', k_trans_id := Some ''TX-77'',
                        k_status := None, k_created_at := None\<rparr>"
  let ?bad = "sample_env\<lparr>db_ok := False\<rparr>"
  let ?r = "sample_row\<lparr>cpf := ''52998224725'', trans_id := ''TX-77''\<rparr>"
  have d: "validate_date (t_now sample_env) (strip ''agora'') = Some ''04/11/2026 07:03:09''"
    unfolding sample_env_def sample_time_def by code_simp
  have d': "validate_date (t_now ?bad) (strip ''agora'') = Some ''04/11/2026 07:03:09''"
    using d by (simp add: sample_env_def)
  have u: "user_data sample_date_world = Some ?p" by (simp add: sample_date_world_def)
  have ok: "handle ASK_DATE_CONFIRM sample_env ''agora'' sample_date_world =
     Inr ([Saved ''ORD1''], END, \<lparr>rows = [?r], user_data = None\<rparr>)"
    unfolding sample_env_def sample_time_def sample_date_world_def sample_draft_def sample_row_def
    by code_simp
  have g: "get_pedido_by_id True [?r] ''ORD1'' = Some ?r"
    by (simp add: get_pedido_by_id_def sample_row_def)
  from finalize_clears_session [OF d' u]
  have "handle ASK_DATE_CONFIRM ?bad ''agora'' sample_date_world =
     Inr ([Save_error], END, \<lparr>rows = rows sample_date_world, user_data = None\<rparr>)"
    by (auto simp: sample_env_def)
  then have bad: "handle ASK_DATE_CONFIRM ?bad ''agora'' sample_date_world =
     Inr ([Save_error], END, \<lparr>rows = [], user_data = None\<rparr>)"
    by (simp add: sample_date_world_def)
  from d u ok g bad show ?thesis by simp
qed

lemma sanitize_input_length: "length (sanitize_input t n) \<le> n"
  by (simp add: sanitize_input_def)

lemma hex32_length: "length (hex32 n) = 32"
  by (simp add: hex32_def)

lemma uuid4_str_length: "length (uuid4_str r) = 36"
  by (simp add: uuid4_str_def Let_def hex32_length)

lemma filter_length_bound: "length xs \<le> n \<Longrightarrow> length (filter P xs) \<le> n"
  using length_filter_le [of P xs] by (rule order_trans)

lemma new_draft_bounded: "length i \<le> 255 \<Longrightarrow> draft_bounded (new_draft i)"
  by (simp add: draft_bounded_def new_draft_def get_or_def)

lemma add_pedido_db_bounded:
  assumes "list_all row_bounded rs" and "draft_bounded p"
  shows "list_all row_bounded (snd (add_pedido_db ok t1 t2 rs p))"
  using assms
  by (auto simp: add_pedido_db_def row_bounded_def draft_bounded_def split: option.splits)

lemma update_pedido_status_bounded:
  assumes "list_all row_bounded rs"
  shows "list_all row_bounded (snd (update_pedido_status ok t rs i st))"
  using assms
  by (auto simp: update_pedido_status_def row_bounded_def list_all_iff)

lemma add_pedido_id_bounded:
  "world_bounded w \<Longrightarrow> add_pedido_id ev msg w = Inr (rep, st, w') \<Longrightarrow> world_bounded w'"
  using sanitize_input_length [of "strip msg" 255] uuid4_str_length [of "random_bytes ev"]
  by (auto simp: add_pedido_id_def world_bounded_def Let_def new_draft_bounded split: if_splits)

lemma world_bounded_draft:
  "world_bounded w \<Longrightarrow> draft_bounded p \<Longrightarrow> world_bounded (w\<lparr>user_data := Some p\<rparr>)"
  by (simp add: world_bounded_def)

lemma add_pedido_cpf_bounded:
  assumes "world_bounded w" and "add_pedido_cpf ev msg w = Inr (rep, st, w')"
  shows "world_bounded w'"
proof (cases "user_data w")
  case None
  with assms show ?thesis
    by (auto simp: add_pedido_cpf_def Let_def split: if_splits)
next
  case (Some p)
  define tx where "tx = sanitize_input (strip msg) 255"
  have len: "length (filter isdigit tx) \<le> 255"
    unfolding tx_def by (rule filter_length_bound) (rule sanitize_input_length)
  from assms(1) Some have b: "draft_bounded p" by (simp add: world_bounded_def)
  then have b1: "draft_bounded (p\<lparr>k_cpf := Some []\<rparr>)"
    by (simp add: draft_bounded_def get_or_def)
  from b len have b2: "draft_bounded (p\<lparr>k_cpf := Some (filter isdigit tx)\<rparr>)"
    by (simp add: draft_bounded_def get_or_def)
  from assms(2) Some
  have "w' = w \<or> w' = w\<lparr>user_data := Some (p\<lparr>k_cpf := Some []\<rparr>)\<rparr> \<or>
        w' = w\<lparr>user_data := Some (p\<lparr>k_cpf := Some (filter isdigit tx)\<rparr>)\<rparr>"
    unfolding add_pedido_cpf_def tx_def Let_def by (simp split: if_splits)
  with assms(1) b1 b2 show ?thesis
    using world_bounded_draft by blast
qed

lemma add_pedido_name_bounded:
  assumes "world_bounded w" and "add_pedido_name ev msg w = Inr (rep, st, w')"
  shows "world_bounded w'"
proof (cases "user_data w")
  case None
  with assms show ?thesis
    by (auto simp: add_pedido_name_def Let_def split: if_splits)
next
  case (Some p)
  define tx where "tx = sanitize_input (strip msg) 200"
  have len: "length tx \<le> 200"
    unfolding tx_def by (rule sanitize_input_length)
  from assms(1) Some have b: "draft_bounded p" by (simp add: world_bounded_def)
  with len have b1: "draft_bounded (p\<lparr>k_nome := Some tx\<rparr>)"
    by (simp add: draft_bounded_def get_or_def)
  from assms(2) Some
  have "w' = w \<or> w' = w\<lparr>user_data := Some (p\<lparr>k_nome := Some tx\<rparr>)\<rparr>"
    unfolding add_pedido_name_def tx_def Let_def by (simp split: if_splits)
  with assms(1) b1 show ?thesis
    using world_bounded_draft by blast
qed

lemma add_pedido_product_bounded:
  assumes "world_bounded w" and "add_pedido_product ev msg w = Inr (rep, st, w')"
  shows "world_bounded w'"
proof (cases "user_data w")
  case None
  with assms show ?thesis
    by (auto simp: add_pedido_product_def Let_def split: if_splits)
next
  case (Some p)
  define tx where "tx = sanitize_input (strip msg) 300"
  have len: "length tx \<le> 300"
    unfolding tx_def by (rule sanitize_input_length)
  from assms(1) Some have b: "draft_bounded p" by (simp add: world_bounded_def)
  with len have b1: "draft_bounded (p\<lparr>k_produto := Some tx\<rparr>)"
    by (simp add: draft_bounded_def get_or_def)
  from assms(2) Some
  have "w' = w \<or> w' = w\<lparr>user_data := Some (p\<lparr>k_produto := Some tx\<rparr>)\<rparr>"
    unfolding add_pedido_product_def tx_def Let_def by (simp split: if_splits)
  with assms(1) b1 show ?thesis
    using world_bounded_draft by blast
qed

lemma add_pedido_value_bounded:
  "world_bounded w \<Longrightarrow> add_pedido_value ev msg w = Inr (rep, st, w') \<Longrightarrow> world_bounded w'"
  by (auto simp: add_pedido_value_def world_bounded_def draft_bounded_def
      split: if_splits option.splits)

lemma add_pedido_discount_bounded:
  "world_bounded w \<Longrightarrow> add_pedido_discount ev msg w = Inr (rep, st, w') \<Longrightarrow> world_bounded w'"
  by (auto simp: add_pedido_discount_def world_bounded_def draft_bounded_def
      split: if_splits option.splits)

lemma add_pedido_transid_bounded:
  assumes "world_bounded w" and "add_pedido_transid ev msg w = Inr (rep, st, w')"
  shows "world_bounded w'"
proof (cases "user_data w")
  case None
  with assms show ?thesis
    by (simp add: add_pedido_transid_def Let_def)
next
  case (Some p)
  define tx where "tx = sanitize_input (strip msg) 255"
  have len: "length tx \<le> 255"
    unfolding tx_def by (rule sanitize_input_length)
  from assms(1) Some have b: "draft_bounded p" by (simp add: world_bounded_def)
  with len have b1: "draft_bounded (p\<lparr>k_trans_id := Some (if lower tx = ''pular'' then [] else tx)\<rparr>)"
    by (simp add: draft_bounded_def get_or_def)
  from assms(2) Some
  have "w' = w\<lparr>user_data := Some (p\<lparr>k_trans_id := Some (if lower tx = ''pular'' then [] else tx)\<rparr>)\<rparr>"
    unfolding add_pedido_transid_def tx_def Let_def by simp
  with assms(1) b1 show ?thesis
    using world_bounded_draft by blast
qed

lemma add_pedido_date_bounded:
  assumes "world_bounded w" and "add_pedido_date ev msg w = Inr (rep, st, w')"
  shows "world_bounded w'"
proof (cases "user_data w")
  case None
  with assms show ?thesis
    by (auto simp: add_pedido_date_def split: option.splits if_splits)
next
  case (Some p)
  with assms(1) have b: "list_all row_bounded (rows w)" "draft_bounded p"
    by (simp_all add: world_bounded_def)
  show ?thesis
  proof (cases "validate_date (t_now ev) (strip msg)")
    case None
    with assms show ?thesis by (simp add: add_pedido_date_def)
  next
    case (Some dv)
    let ?p = "p\<lparr>k_created_at := Some dv, k_status := Some ''pendente''\<rparr>"
    from b(2) have "draft_bounded ?p" by (simp add: draft_bounded_def)
    from add_pedido_db_bounded [OF b(1) this]
    have "list_all row_bounded (snd (add_pedido_db (db_ok ev) (t_default ev) (t_update ev) (rows w) ?p))" .
    with assms Some \<open>user_data w = Some p\<close> show ?thesis
      by (auto simp: add_pedido_date_def world_bounded_def split_beta Let_def split: if_splits)
  qed
qed

lemma handle_bounded:
  assumes "world_bounded w" and "handle s ev msg w = Inr (rep, st, w')"
  shows "world_bounded w'"
proof (cases s)
  case ASK_ID
  with assms show ?thesis using add_pedido_id_bounded by simp
next
  case ASK_CPF
  with assms show ?thesis using add_pedido_cpf_bounded by simp
next
  case ASK_NAME
  with assms show ?thesis using add_pedido_name_bounded by simp
next
  case ASK_PRODUCT
  with assms show ?thesis using add_pedido_product_bounded by simp
next
  case ASK_VALUE
  with assms show ?thesis using add_pedido_value_bounded by simp
next
  case ASK_DISCOUNT
  with assms show ?thesis using add_pedido_discount_bounded by simp
next
  case ASK_ECONOMY
  with assms show ?thesis by simp
next
  case ASK_TRANSID
  with assms show ?thesis using add_pedido_transid_bounded by simp
next
  case ASK_DATE_CONFIRM
  with assms show ?thesis using add_pedido_date_bounded by simp
next
  case END
  with assms show ?thesis by simp
qed

lemma add_pedido_start_bounded:
  "world_bounded w \<Longrightarrow> add_pedido_start a u w = Inr (rep, st, w') \<Longrightarrow> world_bounded w'"
  by (auto simp: add_pedido_start_def split: if_splits)

lemma cancel_bounded:
  "world_bounded w \<Longrightarrow> cancel w = Inr (rep, st, w') \<Longrightarrow> world_bounded w'"
  by (auto simp: cancel_def world_bounded_def)

lemma commit_bounded:
  assumes "bot_bounded b"
    and "\<And>rep st w'. out = Inr (rep, st, w') \<Longrightarrow> world_bounded w'"
  shows "bot_bounded (commit b u out)"
proof (cases out)
  case (Inl e)
  with assms(1) show ?thesis by (simp add: commit_def)
next
  case (Inr x)
  obtain rep st w' where x: "x = (rep, st, w')" by (cases x)
  with Inr assms(2) have w': "world_bounded w'" by simp
  have c: "commit b u out =
      \<lparr>table = rows w', convs = (convs b)(u := st), datas = (datas b)(u := user_data w')\<rparr>"
    using Inr x by (simp add: commit_def)
  show ?thesis
    unfolding bot_bounded_def
  proof
    fix v
    from assms(1) have "world_bounded \<lparr>rows = table b, user_data = datas b v\<rparr>"
      by (simp add: bot_bounded_def)
    with w' show "world_bounded \<lparr>rows = table (commit b u out), user_data = datas (commit b u out) v\<rparr>"
      by (simp add: c world_bounded_def)
  qed
qed

lemma step_bounded:
  assumes "bot_bounded b"
  shows "bot_bounded (step a b x)"
proof -
  obtain u e y where x: "x = (u, e, y)" by (cases x)
  let ?w = "\<lparr>rows = table b, user_data = datas b u\<rparr>"
  from assms have w: "world_bounded ?w" by (simp add: bot_bounded_def)
  show ?thesis
  proof (cases y)
    case Start
    have "bot_bounded (commit b u (add_pedido_start a u ?w))"
      using assms add_pedido_start_bounded [OF w] by (rule commit_bounded)
    with assms x Start show ?thesis by (simp add: step_def)
  next
    case (Text msg)
    have "bot_bounded (commit b u (handle (convs b u) e msg ?w))"
      using assms handle_bounded [OF w] by (rule commit_bounded)
    with assms x Text show ?thesis by (simp add: step_def)
  next
    case Cancel
    have "bot_bounded (commit b u (cancel ?w))"
      using assms cancel_bounded [OF w] by (rule commit_bounded)
    with assms x Cancel show ?thesis by (simp add: step_def)
  next
    case (Mark_delivered i)
    from assms have t: "list_all row_bounded (table b)"
      and d: "\<And>v. (case datas b v of None \<Rightarrow> True | Some p \<Rightarrow> draft_bounded p)"
      by (simp_all add: bot_bounded_def world_bounded_def)
    from update_pedido_status_bounded [OF t]
    have "list_all row_bounded (snd (update_pedido_status (db_ok e) (t_now e) (table b) i ''entregue''))" .
    with d x Mark_delivered show ?thesis
      by (simp add: step_def bot_bounded_def world_bounded_def)
  qed
qed

lemma foldl_step_bounded: "bot_bounded b \<Longrightarrow> bot_bounded (foldl (step a) b xs)"
  by (induction xs arbitrary: b) (simp_all add: step_bounded)

lemma run_bounded: "bot_bounded (run a xs)"
  unfolding run_def
  by (rule foldl_step_bounded) (simp add: bot_bounded_def initial_bot_def world_bounded_def)

lemma sample_run: "table (run None sample_dialogue) = [sample_row]"
  unfolding sample_dialogue_def sample_env_def sample_time_def sample_row_def by code_simp

text \<open>
  C10. Every text that a dialogue stores has gone through \<open>sanitize_input\<close>, which trims
  it and cuts it to the given length. So in every table that any sequence of updates of
  any users produces, each row has an id, a CPF and a transaction id of at most 255
  characters, a customer name of at most 200 and a product description of at most 300.
\<close>

theorem intake_fields_bounded:
  "length (sanitize_input t n) \<le> n \<and>
   (r \<in> set (table (run admin_id updates)) \<longrightarrow>
      length (pid r) \<le> 255 \<and> length (cpf r) \<le> 255 \<and> length (trans_id r) \<le> 255 \<and>
      length (nome r) \<le> 200 \<and> length (produto r) \<le> 300)"
proof -
  have "list_all row_bounded (table (run admin_id updates))"
    using run_bounded [of admin_id updates]
    by (simp add: bot_bounded_def world_bounded_def)
  then show ?thesis
    by (auto simp: list_all_iff row_bounded_def sanitize_input_length)
qed

theorem intake_fields_bounded_witness:
  "sample_row \<in> set (table (run None sample_dialogue)) \<and>
   length (pid sample_row) \<le> 255 \<and> length (cpf sample_row) \<le> 255 \<and>
   length (trans_id sample_row) \<le> 255 \<and> length (nome sample_row) \<le> 200 \<and>
   length (produto sample_row) \<le> 300"
proof -
  have m: "sample_row \<in> set (table (run None sample_dialogue))"
    by (simp add: sample_run)
  from intake_fields_bounded [of _ _ sample_row None sample_dialogue] m
  show ?thesis by blast
qed

section \<open>Properties of the receipt\<close>
























section \<open>Properties of the validation\<close>

lemma replace_comma_idem: "replace_comma (replace_comma s) = replace_comma s"
  by (induction s) (simp_all add: replace_comma_def)

lemma validate_value_comma: "validate_value (replace_comma s) = validate_value s"
  by (simp add: validate_value_def replace_comma_idem)

lemma remove_currency_other:
  "c \<noteq> CHR ''R'' \<Longrightarrow> remove_currency (c # t) = c # remove_currency t"
  by (cases t) simp_all

lemma strip_leading_space: "isspace c \<Longrightarrow> strip (c # s) = strip s"
  by (simp add: strip_def)

lemma validate_value_currency:
  "validate_value (''R$'' @ s) = validate_value s"
  "validate_value (''R$ '' @ s) = validate_value s"
proof -
  show "validate_value (''R$'' @ s) = validate_value s"
    by (simp add: validate_value_def replace_comma_def)
  have sp: "isspace (CHR '' '')" by (simp add: isspace_def)
  have "remove_currency (replace_comma (''R$ '' @ s)) = CHR '' '' # remove_currency (replace_comma s)"
    by (simp add: replace_comma_def remove_currency_other)
  then show "validate_value (''R$ '' @ s) = validate_value s"
    by (simp add: validate_value_def strip_leading_space [OF sp])
qed

lemma round_half_even_nonneg: "0 \<le> a \<Longrightarrow> 0 < b \<Longrightarrow> 0 \<le> round_half_even a b"
  by (simp add: round_half_even_def Let_def pos_imp_zdiv_nonneg_iff)

lemma round_ratio_wf: "0 \<le> a \<Longrightarrow> 0 < b \<Longrightarrow> float_wf (round_ratio s a b)"
  by (simp add: round_ratio_def Let_def round_half_even_nonneg)

lemma digit_val_nonneg: "isdigit c \<Longrightarrow> 0 \<le> digit_val c"
proof -
  assume "isdigit c"
  then have "(48::nat) \<le> of_char c"
    by (simp add: isdigit_def less_eq_char_def)
  then have "(48::int) \<le> int (of_char c)" by linarith
  also have "int (of_char c) = of_char c" by (rule of_nat_of_char)
  finally show ?thesis by (simp add: digit_val_def)
qed

lemma digits_val_nonneg: "list_all isdigit ds \<Longrightarrow> 0 \<le> acc \<Longrightarrow> 0 \<le> digits_val acc ds"
proof (induction ds arbitrary: acc)
  case Nil
  then show ?case by simp
next
  case (Cons c cs)
  from Cons.prems have "0 \<le> 10 * acc + digit_val c"
    using digit_val_nonneg [of c] by simp
  with Cons show ?case by simp
qed

lemma takeWhile_all: "list_all P (takeWhile P xs)"
  by (induction xs) simp_all

lemma mantissa_parts_digits:
  "mantissa_parts s = (ip, fp, r) \<Longrightarrow> list_all isdigit ip \<and> list_all isdigit fp"
  using takeWhile_all [of isdigit]
  by (auto simp: mantissa_parts_def Let_def split: list.splits if_splits)

lemma parse_decimal_nonneg: "parse_decimal s = Some (D, k) \<Longrightarrow> 0 \<le> D"
proof -
  assume a: "parse_decimal s = Some (D, k)"
  obtain ip fp r where m: "mantissa_parts s = (ip, fp, r)" by (cases "mantissa_parts s")
  with a have "D = digits_val 0 (ip @ fp)"
    by (auto simp: parse_decimal_def split: if_splits option.splits)
  with mantissa_parts_digits [OF m] show ?thesis
    using digits_val_nonneg [of "ip @ fp" 0] by simp
qed

lemma float_of_str_wf: "float_of_str s = Some x \<Longrightarrow> float_wf x"
proof -
  assume a: "float_of_str s = Some x"
  obtain neg body where nb: "split_sign (filter (\<lambda>c. c \<noteq> CHR ''_'') s) = (neg, body)"
    by (cases "split_sign (filter (\<lambda>c. c \<noteq> CHR ''_'') s)")
  show ?thesis
  proof (cases "parse_decimal body")
    case None
    with a nb show ?thesis
      by (auto simp: float_of_str_def split: if_splits)
  next
    case (Some dk)
    obtain D k where dk: "dk = (D, k)" by (cases dk)
    with Some have D: "0 \<le> D" by (simp add: parse_decimal_nonneg)
    from a nb Some dk have "x = round_ratio neg (D * 10 ^ nat k) 1 \<or> x = round_ratio neg D (10 ^ nat (- k))"
      by (auto simp: float_of_str_def split: if_splits)
    with D show ?thesis
      using round_ratio_wf [of "D * 10 ^ nat k" 1 neg] round_ratio_wf [of D "10 ^ nat (- k)" neg]
      by auto
  qed
qed

lemma float_ge0_not_negative: "float_wf x \<Longrightarrow> float_gt float_zero x \<Longrightarrow> \<not> float_ge0 x"
  by (cases x) (auto simp: float_zero_def scaled_def mult_less_0_iff split: if_splits)

lemma validate_value_rejects:
  assumes "float_of_str (strip (remove_currency (replace_comma s))) = Some x"
    and "float_gt float_zero x \<or> x = NaN"
  shows "validate_value s = None"
  using assms float_ge0_not_negative [OF float_of_str_wf [OF assms(1)]]
  by (auto simp: validate_value_def)

lemma cents_nonneg: "0 \<le> m \<Longrightarrow> 0 \<le> cents m e"
  by (simp add: cents_def round_half_even_def Let_def pos_imp_zdiv_nonneg_iff)

lemma round_ratio_shape:
  "(round_ratio s a b = Infinity s \<and> a \<noteq> 0) \<or> (\<exists>m e. round_ratio s a b = Finite s m e)"
  by (simp add: round_ratio_def Let_def)

lemma validate_value_accepts:
  assumes "validate_value s = Some v"
  shows "v = Infinity False \<or> (\<exists>sg m e k. v = Finite sg m e \<and> 0 \<le> k \<and> v = round_ratio sg k 100)"
proof -
  from assms obtain x where x: "float_of_str (strip (remove_currency (replace_comma s))) = Some x"
    "float_ge0 x" "v = round2 x"
    by (auto simp: validate_value_def split: option.splits if_splits)
  from x(1) have wf: "float_wf x" by (rule float_of_str_wf)
  show ?thesis
  proof (cases x)
    case (Finite sg m e)
    with wf have m: "0 \<le> m" by simp
    then have k: "0 \<le> cents m e" by (rule cents_nonneg)
    from Finite x(3) have v: "v = round_ratio sg (cents m e) 100" by simp
    from round_ratio_shape [of sg "cents m e" 100]
    show ?thesis
    proof
      assume inf: "round_ratio sg (cents m e) 100 = Infinity sg \<and> cents m e \<noteq> 0"
      then have "m \<noteq> 0" using cents_zero [of e] by auto
      with x(2) Finite have "\<not> sg" by simp
      with inf v show ?thesis by simp
    next
      assume "\<exists>m' e'. round_ratio sg (cents m e) 100 = Finite sg m' e'"
      with v k show ?thesis by auto
    qed
  next
    case (Infinity sg)
    with x show ?thesis by simp
  next
    case NaN
    with x show ?thesis by simp
  qed
qed

lemma validate_value_examples:
  "validate_value ''89,90'' = Some (round_ratio False 8990 100)"
  "validate_value ''89.90'' = Some (round_ratio False 8990 100)"
  "validate_value ''R$ 89.90'' = Some (round_ratio False 8990 100)"
  "validate_value ''-5'' = None"
  by code_simp+

text \<open>
  \<open>inf\<close> is accepted, and the result is infinite; a negative number too small for a
  float is accepted as minus zero.
\<close>

theorem parse_amount_counterexample:
  "validate_value ''inf'' = Some (Infinity False) \<and>
   validate_value ''-1e-400'' = Some (Finite True 0 (- 1074))"
  by code_simp

text \<open>
  C8 (as amended). \<open>validate_value\<close> reads \<open>89,90\<close>, \<open>89.90\<close> and \<open>R$ 89.90\<close> as the same
  amount, the float nearest to 89.90, and rejects \<open>-5\<close>. In any text a comma counts as a
  point and a leading \<open>R$\<close>, with or without a blank after it, changes nothing. A text
  that \<open>float\<close> cannot read is rejected, and so is one that it reads as a number below
  zero or as NaN. An accepted result is never below zero; it is plus infinity, or finite
  and then the float nearest to a number of hundredths.
\<close>

theorem parse_amount:
  "validate_value ''89,90'' = Some (round_ratio False 8990 100) \<and>
   validate_value ''89.90'' = Some (round_ratio False 8990 100) \<and>
   validate_value ''R$ 89.90'' = Some (round_ratio False 8990 100) \<and>
   validate_value ''-5'' = None \<and>
   validate_value (replace_comma s) = validate_value s \<and>
   validate_value (''R$'' @ s) = validate_value s \<and>
   validate_value (''R$ '' @ s) = validate_value s \<and>
   (float_of_str (strip (remove_currency (replace_comma s))) = None \<longrightarrow>
      validate_value s = None) \<and>
   (float_of_str (strip (remove_currency (replace_comma s))) = Some x \<and>
    (float_gt float_zero x \<or> x = NaN) \<longrightarrow> validate_value s = None) \<and>
   (validate_value s = Some v \<longrightarrow>
      float_ge0 v \<and>
      (v = Infinity False \<or>
       (\<exists>sg m e k. v = Finite sg m e \<and> 0 \<le> k \<and> v = round_ratio sg k 100)))"
proof -
  have r1: "float_of_str (strip (remove_currency (replace_comma s))) = None \<longrightarrow>
      validate_value s = None"
    by (simp add: validate_value_def)
  have r2: "float_of_str (strip (remove_currency (replace_comma s))) = Some x \<and>
    (float_gt float_zero x \<or> x = NaN) \<longrightarrow> validate_value s = None"
    using validate_value_rejects [of s x] by blast
  have a: "validate_value s = Some v \<longrightarrow>
      float_ge0 v \<and>
      (v = Infinity False \<or>
       (\<exists>sg m e k. v = Finite sg m e \<and> 0 \<le> k \<and> v = round_ratio sg k 100))"
    using validate_value_ge0 (1) [of s v] validate_value_accepts [of s v] by blast
  show ?thesis
    using validate_value_examples validate_value_comma [of s] validate_value_currency [of s] r1 r2 a
    by simp
qed

theorem parse_amount_witness:
  "float_of_str (strip (remove_currency (replace_comma ''R$ abc''))) = None \<and>
   validate_value ''R$ abc'' = None \<and>
   float_of_str (strip (remove_currency (replace_comma ''-0,01''))) = Some (round_ratio True 1 100) \<and>
   float_gt float_zero (round_ratio True 1 100) \<and>
   validate_value ''-0,01'' = None \<and>
   validate_value ''R$ 89,909'' = Some (round_ratio False 8991 100) \<and>
   float_ge0 (round_ratio False 8991 100)"
proof -
  have 1: "float_of_str (strip (remove_currency (replace_comma ''R$ abc''))) = None"
    by code_simp
  have 2: "float_of_str (strip (remove_currency (replace_comma ''-0,01''))) = Some (round_ratio True 1 100)"
    by code_simp
  have 3: "float_gt float_zero (round_ratio True 1 100)" by code_simp
  have 4: "validate_value ''R$ 89,909'' = Some (round_ratio False 8991 100)" by code_simp
  from parse_amount [of "''R$ abc''"] 1 have 5: "validate_value ''R$ abc'' = None" by blast
  from parse_amount [of "''-0,01''" "round_ratio True 1 100"] 2 3
  have 6: "validate_value ''-0,01'' = None" by blast
  from parse_amount [of "''R$ 89,909''" _ "round_ratio False 8991 100"] 4
  have 7: "float_ge0 (round_ratio False 8991 100)" by blast
  from 1 2 3 4 5 6 7 show ?thesis by simp
qed

section \<open>Properties of the search\<close>

lemma insert_desc_mset: "mset (insert_desc r xs) = add_mset r (mset xs)"
  by (induction xs) simp_all

lemma order_by_mset: "mset (order_by_created_at_desc xs) = mset xs"
  by (induction xs) (simp_all add: insert_desc_mset)

lemma like_percent_any: "like_match ''%'' s"
  by (induction s) simp_all

lemma like_prefix:
  "list_all (\<lambda>c. c \<noteq> CHR ''%'' \<and> c \<noteq> CHR ''_'') t \<Longrightarrow>
   like_match (t @ ''%'') s = starts_by like_char_eq t s"
proof (induction t arbitrary: s)
  case Nil
  show ?case using like_percent_any by simp
next
  case (Cons p ps)
  then show ?case by (cases s) simp_all
qed

lemma like_infix:
  "like_match (CHR ''%'' # p) s = (like_match p s \<or> (\<exists>c cs. s = c # cs \<and> like_match (CHR ''%'' # p) cs))"
  by (cases s) simp_all

lemma like_contains:
  assumes "list_all (\<lambda>c. c \<noteq> CHR ''%'' \<and> c \<noteq> CHR ''_'') t"
  shows "like_match (CHR ''%'' # t @ ''%'') s = occurs_by like_char_eq t s"
proof (induction s)
  case Nil
  show ?case using like_prefix [OF assms, of "[]"] by simp
next
  case (Cons c cs)
  show ?case using like_prefix [OF assms, of "c # cs"] Cons by simp
qed

lemma c_text_plain: "list_all (\<lambda>c. c \<noteq> CHR 0x00) t \<Longrightarrow> c_text (CHR ''%'' # t @ ''%'') = CHR ''%'' # t @ ''%''"
  by (simp add: c_text_def list_all_iff takeWhile_eq_all_conv)

lemma sql_like_plain:
  assumes "plain_term t"
  shows "sql_like s (''%'' @ t @ ''%'') = occurs_by like_char_eq t (c_text s)"
proof -
  from assms have a: "list_all (\<lambda>c. c \<noteq> CHR 0x00) t"
    and b: "list_all (\<lambda>c. c \<noteq> CHR ''%'' \<and> c \<noteq> CHR ''_'') t"
    by (simp_all add: plain_term_def list_all_iff)
  show ?thesis
    using c_text_plain [OF a] like_contains [OF b] by (simp add: sql_like_def)
qed

lemma starts_by_mono: "(\<And>p c. R p c \<Longrightarrow> Q p c) \<Longrightarrow> starts_by R t s \<Longrightarrow> starts_by Q t s"
  by (induction R t s rule: starts_by.induct) simp_all

lemma occurs_by_mono: "(\<And>p c. R p c \<Longrightarrow> Q p c) \<Longrightarrow> occurs_by R t s \<Longrightarrow> occurs_by Q t s"
  by (induction s) (auto intro: starts_by_mono)

lemma substring_occurs: "is_substring t s \<Longrightarrow> occurs_by like_char_eq t s"
  unfolding is_substring_def
  by (rule occurs_by_mono [where R = "(=)"]) (simp_all add: like_char_eq_def)

lemma starts_by_eq: "starts_by (=) t s = (\<exists>suf. s = t @ suf)"
  by (induction "(=) :: char \<Rightarrow> char \<Rightarrow> bool" t s rule: starts_by.induct) auto

lemma is_substring_iff: "is_substring t s = (\<exists>pre suf. s = pre @ t @ suf)"
proof (induction s)
  case Nil
  show ?case by (auto simp: is_substring_def starts_by_eq)
next
  case (Cons c cs)
  have "(\<exists>pre suf. c # cs = pre @ t @ suf) = ((\<exists>suf. c # cs = t @ suf) \<or> (\<exists>pre suf. cs = pre @ t @ suf))"
  proof
    assume "\<exists>pre suf. c # cs = pre @ t @ suf"
    then obtain pre suf where e: "c # cs = pre @ t @ suf" by blast
    show "(\<exists>suf. c # cs = t @ suf) \<or> (\<exists>pre suf. cs = pre @ t @ suf)"
    proof (cases pre)
      case Nil
      with e show ?thesis by auto
    next
      case (Cons a pre')
      with e have "cs = pre' @ t @ suf" by simp
      then show ?thesis by blast
    qed
  next
    assume "(\<exists>suf. c # cs = t @ suf) \<or> (\<exists>pre suf. cs = pre @ t @ suf)"
    then show "\<exists>pre suf. c # cs = pre @ t @ suf"
    proof
      assume "\<exists>suf. c # cs = t @ suf"
      then obtain suf where "c # cs = [] @ t @ suf" by auto
      then show ?thesis by blast
    next
      assume "\<exists>pre suf. cs = pre @ t @ suf"
      then obtain pre suf where "c # cs = (c # pre) @ t @ suf" by auto
      then show ?thesis by blast
    qed
  qed
  with Cons show ?case by (simp add: is_substring_def starts_by_eq)
qed

lemma search_pedidos_eq:
  assumes "utf8_length (''%'' @ term @ ''%'') \<le> 50000" and "0 \<le> limit" and "limit < 2 ^ 63"
  shows "search_pedidos True rs term limit =
           take (nat limit) (order_by_created_at_desc (filter (matches_term term) rs))"
proof -
  from assms have "is_int64 limit" by (simp add: is_int64_def)
  moreover have "(\<lambda>r. sql_like (pid r) (''%'' @ term @ ''%'') \<or> sql_like (cpf r) (''%'' @ term @ ''%'') \<or>
      sql_like (nome r) (''%'' @ term @ ''%'')) = matches_term term"
    by (rule ext) (simp add: matches_term_def)
  ultimately show ?thesis
    using assms by (simp add: search_pedidos_def sql_limit_def Let_def)
qed

lemma matches_term_plain:
  assumes "plain_term term"
  shows "matches_term term r =
           (occurs_by like_char_eq term (c_text (pid r)) \<or>
            occurs_by like_char_eq term (c_text (cpf r)) \<or>
            occurs_by like_char_eq term (c_text (nome r)))"
  using sql_like_plain [OF assms] by (simp add: matches_term_def)

lemma c_text_id: "CHR 0x00 \<notin> set s \<Longrightarrow> c_text s = s"
  by (auto simp: c_text_def takeWhile_eq_all_conv)

text \<open>
  A search for \<open>ana\<close> finds the customers \<open>ANA\<close> and \<open>Ana Lima\<close>, in neither of whose
  records \<open>ana\<close> is a substring of the id, the CPF or the name.
\<close>

theorem search_counterexample:
  "search_pedidos True
     [sample_row_of ''B2'' ''Ana Lima'' ''01/02/2024 10:00:00'',
      sample_row_of ''A1'' ''ANA'' ''02/02/2024 10:00:00''] ''ana'' 20 =
     [sample_row_of ''A1'' ''ANA'' ''02/02/2024 10:00:00'',
      sample_row_of ''B2'' ''Ana Lima'' ''01/02/2024 10:00:00''] \<and>
   \<not> is_substring ''ana'' ''A1'' \<and> \<not> is_substring ''ana'' [] \<and>
   \<not> is_substring ''ana'' ''ANA'' \<and> \<not> is_substring ''ana'' ''B2'' \<and>
   \<not> is_substring ''ana'' ''Ana Lima''"
  unfolding sample_row_of_def sample_row_def by code_simp

text \<open>
  C1 (as amended). For a term whose pattern \<open>%term%\<close> has at most 50000 bytes and a limit
  from 0 to \<open>2\<^sup>6\<^sup>3 - 1\<close>, the search on a working store returns rows that the pattern matches
  in the id, the CPF or the name, each of them as often as the table holds it: never more
  rows than the limit, and all the matching rows when they are no more than the limit.
  For a term without \<open>%\<close>, \<open>_\<close> and NUL, a row matches exactly when the term occurs, with
  the case of ASCII letters ignored, in one of the three texts read up to its first NUL
  character; so a row without NUL characters in the three texts matches exactly when the
  term occurs in one of them with the case of ASCII letters ignored, and it matches
  whenever the term is a substring of one of them.
\<close>

theorem search_result:
  assumes "utf8_length (''%'' @ term @ ''%'') \<le> 50000" and "0 \<le> limit" and "limit < 2 ^ 63"
  shows "(\<exists>full. mset full = mset (filter (matches_term term) rs) \<and>
            search_pedidos True rs term limit = take (nat limit) full) \<and>
         length (search_pedidos True rs term limit) \<le> nat limit \<and>
         (length (filter (matches_term term) rs) \<le> nat limit \<longrightarrow>
            mset (search_pedidos True rs term limit) = mset (filter (matches_term term) rs) \<and>
            set (search_pedidos True rs term limit) = {r \<in> set rs. matches_term term r}) \<and>
         (plain_term term \<longrightarrow>
            matches_term term r =
              (occurs_by like_char_eq term (c_text (pid r)) \<or>
               occurs_by like_char_eq term (c_text (cpf r)) \<or>
               occurs_by like_char_eq term (c_text (nome r)))) \<and>
         (plain_term term \<and> CHR 0x00 \<notin> set (pid r) \<and> CHR 0x00 \<notin> set (cpf r) \<and>
          CHR 0x00 \<notin> set (nome r) \<longrightarrow>
            matches_term term r =
              (occurs_by like_char_eq term (pid r) \<or> occurs_by like_char_eq term (cpf r) \<or>
               occurs_by like_char_eq term (nome r)) \<and>
            (is_substring term (pid r) \<or> is_substring term (cpf r) \<or>
             is_substring term (nome r) \<longrightarrow> matches_term term r))"
proof -
  let ?full = "order_by_created_at_desc (filter (matches_term term) rs)"
  have eq: "search_pedidos True rs term limit = take (nat limit) ?full"
    using assms by (rule search_pedidos_eq)
  have m: "mset ?full = mset (filter (matches_term term) rs)"
    by (rule order_by_mset)
  have 1: "\<exists>full. mset full = mset (filter (matches_term term) rs) \<and>
            search_pedidos True rs term limit = take (nat limit) full"
    using eq m by blast
  have 2: "length (search_pedidos True rs term limit) \<le> nat limit"
    by (simp add: eq)
  have len: "length ?full = length (filter (matches_term term) rs)"
    using m by (metis size_mset)
  have st: "set ?full = {r \<in> set rs. matches_term term r}"
    using m by (metis set_mset_mset set_filter)
  have 3: "length (filter (matches_term term) rs) \<le> nat limit \<longrightarrow>
            mset (search_pedidos True rs term limit) = mset (filter (matches_term term) rs) \<and>
            set (search_pedidos True rs term limit) = {r \<in> set rs. matches_term term r}"
    using len st m by (simp add: eq)
  have 4: "plain_term term \<longrightarrow>
            matches_term term r =
              (occurs_by like_char_eq term (c_text (pid r)) \<or>
               occurs_by like_char_eq term (c_text (cpf r)) \<or>
               occurs_by like_char_eq term (c_text (nome r)))"
    using matches_term_plain by blast
  have 5: "plain_term term \<and> CHR 0x00 \<notin> set (pid r) \<and> CHR 0x00 \<notin> set (cpf r) \<and>
          CHR 0x00 \<notin> set (nome r) \<longrightarrow>
            matches_term term r =
              (occurs_by like_char_eq term (pid r) \<or> occurs_by like_char_eq term (cpf r) \<or>
               occurs_by like_char_eq term (nome r)) \<and>
            (is_substring term (pid r) \<or> is_substring term (cpf r) \<or>
             is_substring term (nome r) \<longrightarrow> matches_term term r)"
  proof (intro impI)
    assume h: "plain_term term \<and> CHR 0x00 \<notin> set (pid r) \<and> CHR 0x00 \<notin> set (cpf r) \<and>
          CHR 0x00 \<notin> set (nome r)"
    then have c: "c_text (pid r) = pid r" "c_text (cpf r) = cpf r" "c_text (nome r) = nome r"
      by (simp_all add: c_text_id)
    from h have e: "matches_term term r =
              (occurs_by like_char_eq term (pid r) \<or> occurs_by like_char_eq term (cpf r) \<or>
               occurs_by like_char_eq term (nome r))"
      using matches_term_plain [of "term" r] by (simp only: c)
    have "is_substring term (pid r) \<or> is_substring term (cpf r) \<or>
             is_substring term (nome r) \<longrightarrow> matches_term term r"
      unfolding e using substring_occurs by blast
    with e show "matches_term term r =
              (occurs_by like_char_eq term (pid r) \<or> occurs_by like_char_eq term (cpf r) \<or>
               occurs_by like_char_eq term (nome r)) \<and>
            (is_substring term (pid r) \<or> is_substring term (cpf r) \<or>
             is_substring term (nome r) \<longrightarrow> matches_term term r)"
      by (rule conjI)
  qed
  from 1 2 3 4 5 show ?thesis by (intro conjI)
qed

theorem search_result_witness:
  "utf8_length (''%'' @ ''Silva'' @ ''%'') \<le> 50000 \<and> plain_term ''Silva'' \<and>
   CHR 0x00 \<notin> set (pid sample_row) \<and> CHR 0x00 \<notin> set (cpf sample_row) \<and>
   CHR 0x00 \<notin> set (nome sample_row) \<and>
   is_substring ''Silva'' (nome sample_row) \<and>
   matches_term ''Silva'' sample_row \<and>
   length (search_pedidos True [sample_row] ''Silva'' 20) \<le> nat 20 \<and>
   set (search_pedidos True [sample_row] ''Silva'' 20) = {sample_row}"
proof -
  have u: "utf8_length (''%'' @ ''Silva'' @ ''%'') \<le> 50000" by code_simp
  have p: "plain_term ''Silva''" by code_simp
  have z: "CHR 0x00 \<notin> set (pid sample_row)" "CHR 0x00 \<notin> set (cpf sample_row)"
    "CHR 0x00 \<notin> set (nome sample_row)"
    by (simp_all add: sample_row_def)
  have i: "is_substring ''Silva'' (nome sample_row)"
    unfolding sample_row_def by code_simp
  have b: "(0::int) \<le> 20" "(20::int) < 2 ^ 63" by simp_all
  note t = search_result [OF u b, of "[sample_row]" sample_row]
  from t p z i have m: "matches_term ''Silva'' sample_row" by blast
  from t have l: "length (search_pedidos True [sample_row] ''Silva'' 20) \<le> nat 20" by blast
  have "length (filter (matches_term ''Silva'') [sample_row]) \<le> nat 20" by simp
  with t have "set (search_pedidos True [sample_row] ''Silva'' 20) = {r \<in> set [sample_row]. matches_term ''Silva'' r}"
    by blast
  with m have s: "set (search_pedidos True [sample_row] ''Silva'' 20) = {sample_row}" by auto
  from u p z i m l s show ?thesis by simp
qed

section \<open>Properties of the date validation\<close>

lemma digit_range_cases:
  "0 \<le> d \<Longrightarrow> d \<le> 9 \<Longrightarrow>
   d = 0 \<or> d = 1 \<or> d = 2 \<or> d = 3 \<or> d = 4 \<or> d = 5 \<or> d = 6 \<or> d = 7 \<or> d = 8 \<or> d = (9::int)"
  by arith

lemma digit_char_codes:
  "(of_char (digit_char 0) :: nat) = 48" "(of_char (digit_char 1) :: nat) = 49"
  "(of_char (digit_char 2) :: nat) = 50" "(of_char (digit_char 3) :: nat) = 51"
  "(of_char (digit_char 4) :: nat) = 52" "(of_char (digit_char 5) :: nat) = 53"
  "(of_char (digit_char 6) :: nat) = 54" "(of_char (digit_char 7) :: nat) = 55"
  "(of_char (digit_char 8) :: nat) = 56" "(of_char (digit_char 9) :: nat) = 57"
  by code_simp+

lemma digit_char_code:
  assumes "0 \<le> d" and "d \<le> 9"
  shows "(of_char (digit_char d) :: nat) = nat (48 + d)"
  using digit_range_cases [OF assms] by (auto simp: digit_char_codes)

lemma digit_char_isdigit: "0 \<le> d \<Longrightarrow> d \<le> 9 \<Longrightarrow> isdigit (digit_char d)"
  by (simp add: isdigit_def less_eq_char_def digit_char_code; arith)

lemma digit_char_val: "0 \<le> d \<Longrightarrow> d \<le> 9 \<Longrightarrow> digit_val (digit_char d) = d"
proof -
  assume a: "0 \<le> d" "d \<le> 9"
  have "(of_char (digit_char d) :: int) = int (of_char (digit_char d))"
    by (rule of_nat_of_char [symmetric])
  with a show ?thesis by (simp add: digit_val_def digit_char_code)
qed

lemma digit_char_in_range:
  assumes "0 \<le> d" "d \<le> 9" "0 \<le> lo" "lo \<le> 9" "0 \<le> hi" "hi \<le> 9"
  shows "in_range (digit_char lo) (digit_char hi) (digit_char d) = (lo \<le> d \<and> d \<le> hi)"
  using assms by (simp add: in_range_def less_eq_char_def digit_char_code; arith)

lemma digit_char_eq:
  assumes "0 \<le> d" "d \<le> 9" "0 \<le> k" "k \<le> 9"
  shows "(digit_char d = digit_char k) = (d = k)"
proof -
  have "(digit_char d = digit_char k) = ((of_char (digit_char d) :: nat) = of_char (digit_char k))"
    by simp
  with assms show ?thesis by (simp add: digit_char_code; arith)
qed

lemma digit_literals:
  "CHR ''0'' = digit_char 0" "CHR ''1'' = digit_char 1" "CHR ''2'' = digit_char 2"
  "CHR ''3'' = digit_char 3" "CHR ''4'' = digit_char 4" "CHR ''5'' = digit_char 5"
  "CHR ''6'' = digit_char 6" "CHR ''7'' = digit_char 7" "CHR ''8'' = digit_char 8"
  "CHR ''9'' = digit_char 9"
  by code_simp+

lemma digit_char_not_sep:
  assumes "0 \<le> d" "d \<le> 9"
  shows "digit_char d \<noteq> CHR ''/''" "digit_char d \<noteq> CHR '':''" "digit_char d \<noteq> CHR '' ''"
    "\<not> isspace (digit_char d)"
proof -
  have c: "(of_char (digit_char d) :: nat) = nat (48 + d)"
    using assms by (rule digit_char_code)
  have n: "c = CHR ''/'' \<or> c = CHR '':'' \<or> isspace c \<Longrightarrow>
      (of_char c :: nat) < 48 \<or> 57 < (of_char c :: nat)" for c
    by (auto simp: isspace_def)
  from n [of "digit_char d"] c assms
  show "digit_char d \<noteq> CHR ''/''" "digit_char d \<noteq> CHR '':''" "\<not> isspace (digit_char d)"
    by auto
  then show "digit_char d \<noteq> CHR '' ''" by (auto simp: isspace_def)
qed

lemma isdigit_digit_char: "isdigit c \<Longrightarrow> \<exists>d. 0 \<le> d \<and> d \<le> 9 \<and> c = digit_char d"
proof -
  assume "isdigit c"
  then have r: "48 \<le> (of_char c :: nat)" "(of_char c :: nat) \<le> 57"
    by (simp_all add: isdigit_def less_eq_char_def)
  let ?d = "int (of_char c) - 48"
  from r have b: "0 \<le> ?d" "?d \<le> 9" by simp_all
  from r have "(of_char (digit_char ?d) :: nat) = of_char c"
    using digit_char_code [OF b] by simp
  then have "c = digit_char ?d" by simp
  with b show ?thesis by blast
qed

lemma two_chars_digits:
  assumes "0 \<le> a" "a \<le> 9" "0 \<le> b" "b \<le> 9"
  shows "two_chars P Q (digit_char a # digit_char b # r) =
           (if P (digit_char a) \<and> Q (digit_char b) then [(10 * a + b, r)] else [])"
  using assms by (simp add: two_chars_def digit_char_isdigit digit_char_val)

lemma one_char_digit:
  assumes "0 \<le> a" "a \<le> 9"
  shows "one_char P (digit_char a # r) = (if P (digit_char a) then [(a, r)] else [])"
  using assms by (simp add: one_char_def digit_char_val)

lemma two_chars_second:
  "\<not> Q c \<Longrightarrow> two_chars P Q (a # c # r) = []"
  "two_chars P Q [a] = []" "two_chars P Q [] = []"
  by (simp_all add: two_chars_def)

lemma two_chars_first: "\<not> P a \<Longrightarrow> two_chars P Q (a # r) = []"
  by (cases r) (simp_all add: two_chars_def)

lemma one_char_first: "\<not> P a \<Longrightarrow> one_char P (a # r) = []" "one_char P [] = []"
  by (simp_all add: one_char_def)

lemma in_range_isdigit:
  assumes "0 \<le> lo" "lo \<le> 9" "0 \<le> hi" "hi \<le> 9"
  shows "in_range (digit_char lo) (digit_char hi) c \<Longrightarrow> isdigit c"
  using assms
  by (simp add: in_range_def isdigit_def less_eq_char_def digit_char_code; arith)

lemma isdigit_range: "isdigit c = in_range (digit_char 0) (digit_char 9) c"
  by (simp add: isdigit_def in_range_def digit_literals)

lemma sep_not_digit: "\<not> isdigit (CHR ''/'')" "\<not> isdigit (CHR '':'')" "\<not> isdigit (CHR '' '')"
  by (simp_all add: isdigit_def)

lemma space_not_digit: "isspace c \<Longrightarrow> \<not> isdigit c"
  by (auto simp: isspace_def isdigit_def)

lemma split_two_digits:
  assumes "(0::int) \<le> v" "v \<le> 99"
  shows "0 \<le> v div 10 \<and> v div 10 \<le> 9 \<and> 0 \<le> v mod 10 \<and> v mod 10 \<le> 9 \<and>
         10 * (v div 10) + v mod 10 = v"
  using assms by presburger

lemma re_d_two:
  assumes "1 \<le> v" "v \<le> 31"
  shows "re_d (two_digits v @ CHR ''/'' # r) =
           (v, CHR ''/'' # r) #
           (if 10 \<le> v then [(v div 10, digit_char (v mod 10) # CHR ''/'' # r)] else [])"
proof -
  define a b where "a = v div 10" and "b = v mod 10"
  from assms have ab: "0 \<le> a" "a \<le> 3" "0 \<le> b" "b \<le> 9" "10 * a + b = v"
    unfolding a_def b_def by presburger+
  from ab have a9: "a \<le> 9" by simp
  have sp: "digit_char a \<noteq> CHR '' ''" using ab(1) a9 by (rule digit_char_not_sep)
  have "re_d (digit_char a # digit_char b # CHR ''/'' # r) =
           (v, CHR ''/'' # r) #
           (if 10 \<le> v then [(a, digit_char b # CHR ''/'' # r)] else [])"
    using ab a9 sp assms
    by (simp add: re_d_def two_chars_digits one_char_digit digit_literals digit_char_in_range
        digit_char_eq isdigit_range; arith)
  then show ?thesis by (simp add: two_digits_def a_def b_def)
qed

lemma re_d_one:
  assumes "1 \<le> v" "v \<le> 9"
  shows "re_d (digit_char v # CHR ''/'' # r) = [(v, CHR ''/'' # r)]"
    and "re_d (CHR '' '' # digit_char v # CHR ''/'' # r) = [(v, CHR ''/'' # r)]"
proof -
  from assms have v: "0 \<le> v" "v \<le> 9" by simp_all
  have sp: "digit_char v \<noteq> CHR '' ''" using v by (rule digit_char_not_sep)
  have nd: "\<not> in_range (digit_char lo) (digit_char hi) (CHR ''/'')"
    if "0 \<le> lo" "lo \<le> 9" "0 \<le> hi" "hi \<le> 9" for lo hi
    using in_range_isdigit [OF that, of "CHR ''/''"] sep_not_digit by blast
  show "re_d (digit_char v # CHR ''/'' # r) = [(v, CHR ''/'' # r)]"
    using v sp assms
    by (simp add: re_d_def two_chars_second one_char_digit digit_literals digit_char_in_range
        nd isdigit_range)
  have ns: "\<not> in_range (digit_char lo) (digit_char hi) (CHR '' '')"
    if "0 \<le> lo" "lo \<le> 9" "0 \<le> hi" "hi \<le> 9" for lo hi
    using in_range_isdigit [OF that, of "CHR '' ''"] sep_not_digit by blast
  have e: "(CHR '' '' = digit_char k) = False" if "0 \<le> k" "k \<le> 9" for k
    using digit_char_not_sep(3) [OF that] by auto
  have d: "digits_val 0 (filter isdigit [CHR '' '', digit_char v]) = v"
    using v by (simp add: sep_not_digit digit_char_isdigit digit_char_val)
  have t: "two_chars (\<lambda>c. c = CHR '' '') (in_range (digit_char 1) (digit_char 9))
             (CHR '' '' # digit_char v # CHR ''/'' # r) = [(v, CHR ''/'' # r)]"
    using v assms d by (simp add: two_chars_def digit_char_in_range)
  show "re_d (CHR '' '' # digit_char v # CHR ''/'' # r) = [(v, CHR ''/'' # r)]"
    using t
    by (simp add: re_d_def two_chars_first one_char_first digit_literals ns e)
qed

lemma re_m_two:
  assumes "1 \<le> v" "v \<le> 12"
  shows "re_m (two_digits v @ CHR ''/'' # r) =
           (v, CHR ''/'' # r) #
           (if 10 \<le> v then [(v div 10, digit_char (v mod 10) # CHR ''/'' # r)] else [])"
proof -
  define a b where "a = v div 10" and "b = v mod 10"
  from assms have ab: "0 \<le> a" "a \<le> 1" "0 \<le> b" "b \<le> 9" "10 * a + b = v"
    unfolding a_def b_def by presburger+
  from ab have a9: "a \<le> 9" by simp
  have "re_m (digit_char a # digit_char b # CHR ''/'' # r) =
           (v, CHR ''/'' # r) #
           (if 10 \<le> v then [(a, digit_char b # CHR ''/'' # r)] else [])"
    using ab a9 assms
    by (simp add: re_m_def two_chars_digits one_char_digit digit_literals digit_char_in_range
        digit_char_eq isdigit_range; arith)
  then show ?thesis by (simp add: two_digits_def a_def b_def)
qed

lemma re_m_one:
  assumes "1 \<le> v" "v \<le> 9"
  shows "re_m (digit_char v # CHR ''/'' # r) = [(v, CHR ''/'' # r)]"
proof -
  from assms have v: "0 \<le> v" "v \<le> 9" by simp_all
  have nd: "\<not> in_range (digit_char lo) (digit_char hi) (CHR ''/'')"
    if "0 \<le> lo" "lo \<le> 9" "0 \<le> hi" "hi \<le> 9" for lo hi
    using in_range_isdigit [OF that, of "CHR ''/''"] sep_not_digit by blast
  show ?thesis
    using v assms
    by (simp add: re_m_def two_chars_second one_char_digit digit_literals digit_char_in_range
        nd isdigit_range)
qed

lemma re_H_two:
  assumes "0 \<le> v" "v \<le> 23"
  shows "re_H (two_digits v @ CHR '':'' # r) =
           [(v, CHR '':'' # r), (v div 10, digit_char (v mod 10) # CHR '':'' # r)]"
proof -
  define a b where "a = v div 10" and "b = v mod 10"
  from assms have ab: "0 \<le> a" "a \<le> 2" "0 \<le> b" "b \<le> 9" "10 * a + b = v"
    unfolding a_def b_def by presburger+
  from ab have a9: "a \<le> 9" by simp
  have "re_H (digit_char a # digit_char b # CHR '':'' # r) =
           [(v, CHR '':'' # r), (a, digit_char b # CHR '':'' # r)]"
    using ab a9 assms
    by (simp add: re_H_def two_chars_digits one_char_digit digit_literals digit_char_in_range
        digit_char_eq isdigit_range; arith)
  then show ?thesis by (simp add: two_digits_def a_def b_def)
qed

lemma re_H_one:
  assumes "0 \<le> v" "v \<le> 9"
  shows "re_H (digit_char v # CHR '':'' # r) = [(v, CHR '':'' # r)]"
proof -
  have nd: "\<not> in_range (digit_char lo) (digit_char hi) (CHR '':'')"
    if "0 \<le> lo" "lo \<le> 9" "0 \<le> hi" "hi \<le> 9" for lo hi
    using in_range_isdigit [OF that, of "CHR '':''"] sep_not_digit by blast
  show ?thesis
    using assms
    by (simp add: re_H_def two_chars_second one_char_digit digit_literals digit_char_in_range
        nd isdigit_range)
qed

lemma re_M_two:
  assumes "0 \<le> v" "v \<le> 59"
  shows "re_M (two_digits v @ CHR '':'' # r) =
           [(v, CHR '':'' # r), (v div 10, digit_char (v mod 10) # CHR '':'' # r)]"
proof -
  define a b where "a = v div 10" and "b = v mod 10"
  from assms have ab: "0 \<le> a" "a \<le> 5" "0 \<le> b" "b \<le> 9" "10 * a + b = v"
    unfolding a_def b_def by presburger+
  from ab have a9: "a \<le> 9" by simp
  have "re_M (digit_char a # digit_char b # CHR '':'' # r) =
           [(v, CHR '':'' # r), (a, digit_char b # CHR '':'' # r)]"
    using ab a9 assms
    by (simp add: re_M_def two_chars_digits one_char_digit digit_literals digit_char_in_range
        digit_char_eq isdigit_range)
  then show ?thesis by (simp add: two_digits_def a_def b_def)
qed

lemma re_M_one:
  assumes "0 \<le> v" "v \<le> 9"
  shows "re_M (digit_char v # CHR '':'' # r) = [(v, CHR '':'' # r)]"
proof -
  have nd: "\<not> in_range (digit_char lo) (digit_char hi) (CHR '':'')"
    if "0 \<le> lo" "lo \<le> 9" "0 \<le> hi" "hi \<le> 9" for lo hi
    using in_range_isdigit [OF that, of "CHR '':''"] sep_not_digit by blast
  show ?thesis
    using assms
    by (simp add: re_M_def two_chars_second one_char_digit digit_literals digit_char_in_range
        nd isdigit_range)
qed

lemma re_S_two:
  assumes "0 \<le> v" "v \<le> 59"
  shows "re_S (two_digits v) = [(v, []), (v div 10, [digit_char (v mod 10)])]"
proof -
  define a b where "a = v div 10" and "b = v mod 10"
  from assms have ab: "0 \<le> a" "a \<le> 5" "0 \<le> b" "b \<le> 9" "10 * a + b = v"
    unfolding a_def b_def by presburger+
  from ab have a9: "a \<le> 9" by simp
  have "re_S [digit_char a, digit_char b] = [(v, []), (a, [digit_char b])]"
    using ab a9 assms
    by (simp add: re_S_def two_chars_digits one_char_digit digit_literals digit_char_in_range
        digit_char_eq isdigit_range)
  then show ?thesis by (simp add: two_digits_def a_def b_def)
qed

lemma re_S_one:
  assumes "0 \<le> v" "v \<le> 9"
  shows "re_S [digit_char v] = [(v, [])]"
  using assms
  by (simp add: re_S_def two_chars_second one_char_digit digit_literals digit_char_in_range
      isdigit_range)

lemma pad4_digits:
  assumes "0 \<le> y" "y \<le> 9999"
  shows "length (pad4 y) = 4" "list_all isdigit (pad4 y)" "digits_val 0 (pad4 y) = y"
proof -
  define q1 q2 q3 where "q1 = y div 10" and "q2 = q1 div 10" and "q3 = q2 div 10"
  define a b c d where "a = q3" and "b = q2 mod 10" and "c = q1 mod 10" and "d = y mod 10"
  have h: "y div 100 = q2" "y div 1000 = q3"
    unfolding q1_def q2_def q3_def by (simp_all add: zdiv_zmult2_eq)
  have y: "y = 10 * q1 + d" "q1 = 10 * q2 + c" "q2 = 10 * q3 + b"
    unfolding q1_def q2_def q3_def b_def c_def d_def by simp_all
  have "y div 1000 \<le> 9999 div 1000" using assms(2) by (rule zdiv_mono1) simp
  then have "q3 \<le> 9" by (simp add: h)
  moreover from assms have "0 \<le> q3" unfolding h(2) [symmetric] by simp
  ultimately have r: "0 \<le> a" "a \<le> 9" "0 \<le> b" "b \<le> 9" "0 \<le> c" "c \<le> 9" "0 \<le> d" "d \<le> 9"
    unfolding a_def b_def c_def d_def by simp_all
  have p: "pad4 y = [digit_char a, digit_char b, digit_char c, digit_char d]"
    by (simp add: pad4_def h a_def b_def c_def d_def q1_def)
  have v: "((a * 10 + b) * 10 + c) * 10 + d = y"
    using y unfolding a_def by simp
  show "length (pad4 y) = 4" by (simp add: p)
  show "list_all isdigit (pad4 y)" using r by (simp add: p digit_char_isdigit)
  show "digits_val 0 (pad4 y) = y" using r v by (simp add: p digit_char_val mult.commute)
qed

lemma re_Y_pad4:
  assumes "0 \<le> y" "y \<le> 9999"
  shows "re_Y (pad4 y @ r) = [(y, r)]"
  using pad4_digits [OF assms] by (simp add: re_Y_def)

lemma re_lit_simps:
  "re_lit c (c # r) = [r]" "x \<noteq> c \<Longrightarrow> re_lit c (x # r) = []" "re_lit c [] = []"
  by (simp_all add: re_lit_def)

lemma re_H_space: "isspace x \<Longrightarrow> re_H (x # xs) = []"
proof -
  assume "isspace x"
  then have n: "\<not> isdigit x" by (rule space_not_digit)
  have "\<not> in_range (digit_char lo) (digit_char hi) x"
    if "0 \<le> lo" "lo \<le> 9" "0 \<le> hi" "hi \<le> 9" for lo hi
    using in_range_isdigit [OF that, of x] n by blast
  moreover from n have "x \<noteq> digit_char 2" using digit_char_isdigit [of 2] by auto
  ultimately show ?thesis
    using n by (simp add: re_H_def two_chars_first one_char_first digit_literals)
qed

lemma bind_all_empty: "(\<And>x. x \<in> set xs \<Longrightarrow> f x = []) \<Longrightarrow> List.bind xs f = []"
  by (induction xs) (simp_all add: List.bind_def)

lemma bind_spaces:
  assumes "W \<noteq> []" and "list_all isspace W" and "\<not> isspace c"
    and "\<And>x xs. isspace x \<Longrightarrow> f (x # xs) = []"
  shows "List.bind (re_spaces (W @ c # r)) f = f (c # r)"
proof -
  let ?s = "W @ c # r"
  let ?n = "length W"
  from assms(2,3) have tw: "takeWhile isspace ?s = W"
    by (simp add: takeWhile_append2 list_all_iff)
  from assms(1) have n: "1 \<le> ?n" by (cases W) simp_all
  then have up: "rev [1 ..< Suc ?n] = ?n # rev [1 ..< ?n]" by simp
  have z: "f (drop k ?s) = []" if "k \<in> set (rev [1 ..< ?n])" for k
  proof -
    from that have k: "k < ?n" by simp
    then obtain x xs where d: "drop k W = x # xs" by (cases "drop k W") simp_all
    then have "x \<in> set W" by (metis in_set_dropD list.set_intros(1))
    with assms(2) have "isspace x" by (simp add: list_all_iff)
    moreover from k d have "drop k ?s = x # xs @ c # r" by simp
    ultimately show ?thesis using assms(4) by simp
  qed
  have rs: "re_spaces ?s = drop ?n ?s # map (\<lambda>k. drop k ?s) (rev [1 ..< ?n])"
    by (simp only: re_spaces_def tw up list.map)
  have e: "List.bind (map (\<lambda>k. drop k ?s) (rev [1 ..< ?n])) f = []"
  proof (rule bind_all_empty)
    fix x
    assume "x \<in> set (map (\<lambda>k. drop k ?s) (rev [1 ..< ?n]))"
    then obtain k where "k \<in> set (rev [1 ..< ?n])" "x = drop k ?s" by auto
    then show "f x = []" using z by simp
  qed
  have "List.bind (re_spaces ?s) f = f (drop ?n ?s) @ List.bind (map (\<lambda>k. drop k ?s) (rev [1 ..< ?n])) f"
    by (simp only: rs List.bind_simps)
  with e show ?thesis by simp
qed

lemma bind_d:
  assumes "D \<in> set (day_forms v)" "1 \<le> v" "v \<le> 31"
  shows "List.bind (re_d (D @ CHR ''/'' # r)) (\<lambda>(v', r1). List.bind (re_lit (CHR ''/'') r1) (g v')) = g v r"
proof -
  have b: "0 \<le> v mod 10" "v mod 10 \<le> 9" using assms by presburger+
  have two: "List.bind (re_d (two_digits v @ CHR ''/'' # r)) (\<lambda>(v', r1). List.bind (re_lit (CHR ''/'') r1) (g v')) = g v r"
    using digit_char_not_sep(1) [OF b]
    by (simp add: re_d_two [OF assms(2,3)] List.bind_def re_lit_simps)
  from assms(1) have "D = two_digits v \<or> (v \<le> 9 \<and> (D = [digit_char v] \<or> D = [CHR '' '', digit_char v]))"
    by (auto simp: day_forms_def field_forms_def split: if_splits)
  then show ?thesis
    using two re_d_one [OF assms(2), of r]
    by (auto simp: List.bind_def re_lit_simps)
qed

lemma bind_m:
  assumes "D \<in> set (field_forms v)" "1 \<le> v" "v \<le> 12"
  shows "List.bind (re_m (D @ CHR ''/'' # r)) (\<lambda>(v', r1). List.bind (re_lit (CHR ''/'') r1) (g v')) = g v r"
proof -
  have b: "0 \<le> v mod 10" "v mod 10 \<le> 9" using assms by presburger+
  have two: "List.bind (re_m (two_digits v @ CHR ''/'' # r)) (\<lambda>(v', r1). List.bind (re_lit (CHR ''/'') r1) (g v')) = g v r"
    using digit_char_not_sep(1) [OF b]
    by (simp add: re_m_two [OF assms(2,3)] List.bind_def re_lit_simps)
  from assms(1) have "D = two_digits v \<or> (v \<le> 9 \<and> D = [digit_char v])"
    by (auto simp: field_forms_def split: if_splits)
  then show ?thesis
    using two re_m_one [OF assms(2), of r]
    by (auto simp: List.bind_def re_lit_simps)
qed

lemma bind_H:
  assumes "D \<in> set (field_forms v)" "0 \<le> v" "v \<le> 23"
  shows "List.bind (re_H (D @ CHR '':'' # r)) (\<lambda>(v', r1). List.bind (re_lit (CHR '':'') r1) (g v')) = g v r"
proof -
  have b: "0 \<le> v mod 10" "v mod 10 \<le> 9" using assms by presburger+
  have two: "List.bind (re_H (two_digits v @ CHR '':'' # r)) (\<lambda>(v', r1). List.bind (re_lit (CHR '':'') r1) (g v')) = g v r"
    using digit_char_not_sep(2) [OF b]
    by (simp add: re_H_two [OF assms(2,3)] List.bind_def re_lit_simps)
  from assms(1) have "D = two_digits v \<or> (v \<le> 9 \<and> D = [digit_char v])"
    by (auto simp: field_forms_def split: if_splits)
  then show ?thesis
    using two re_H_one [OF assms(2), of r]
    by (auto simp: List.bind_def re_lit_simps)
qed

lemma bind_M:
  assumes "D \<in> set (field_forms v)" "0 \<le> v" "v \<le> 59"
  shows "List.bind (re_M (D @ CHR '':'' # r)) (\<lambda>(v', r1). List.bind (re_lit (CHR '':'') r1) (g v')) = g v r"
proof -
  have b: "0 \<le> v mod 10" "v mod 10 \<le> 9" using assms by presburger+
  have two: "List.bind (re_M (two_digits v @ CHR '':'' # r)) (\<lambda>(v', r1). List.bind (re_lit (CHR '':'') r1) (g v')) = g v r"
    using digit_char_not_sep(2) [OF b]
    by (simp add: re_M_two [OF assms(2,3)] List.bind_def re_lit_simps)
  from assms(1) have "D = two_digits v \<or> (v \<le> 9 \<and> D = [digit_char v])"
    by (auto simp: field_forms_def split: if_splits)
  then show ?thesis
    using two re_M_one [OF assms(2), of r]
    by (auto simp: List.bind_def re_lit_simps)
qed

lemma bind_S:
  assumes "D \<in> set (field_forms v)" "0 \<le> v" "v \<le> 59"
  shows "\<exists>more. List.bind (re_S D) (\<lambda>(v', r). [(h v', r)]) = (h v, []) # more"
proof -
  from assms(1) have "D = two_digits v \<or> (v \<le> 9 \<and> D = [digit_char v])"
    by (auto simp: field_forms_def split: if_splits)
  then show ?thesis
    using re_S_two [OF assms(2,3)] re_S_one [OF assms(2)]
    by (auto simp: List.bind_def)
qed

lemma field_forms_head:
  assumes "D \<in> set (field_forms v)" "0 \<le> v" "v \<le> 99"
  shows "\<exists>c cs. D = c # cs \<and> \<not> isspace c"
proof -
  from assms have a: "0 \<le> v div 10" "v div 10 \<le> 9" by presburger+
  from assms(1) have "D = two_digits v \<or> (v \<le> 9 \<and> D = [digit_char v])"
    by (auto simp: field_forms_def split: if_splits)
  then show ?thesis
    using digit_char_not_sep(4) [OF a] digit_char_not_sep(4) [OF assms(2)]
    by (auto simp: two_digits_def)
qed

lemma valid_datetime_ranges:
  assumes "valid_datetime dt"
  shows "1 \<le> day dt" "day dt \<le> 31" "1 \<le> month dt" "month dt \<le> 12" "0 \<le> year dt"
    "year dt \<le> 9999" "0 \<le> hour dt" "hour dt \<le> 23" "0 \<le> minute dt" "minute dt \<le> 59"
    "0 \<le> second dt" "second dt \<le> 59"
proof -
  have "days_in_month (year dt) (month dt) \<le> 31"
    by (simp add: days_in_month_def)
  with assms show "1 \<le> day dt" "day dt \<le> 31" "1 \<le> month dt" "month dt \<le> 12" "0 \<le> year dt"
    "year dt \<le> 9999" "0 \<le> hour dt" "hour dt \<le> 23" "0 \<le> minute dt" "minute dt \<le> 59"
    "0 \<le> second dt" "second dt \<le> 59"
    by (simp_all add: valid_datetime_def)
qed

lemma re_match_lenient:
  assumes v: "valid_datetime dt" and l: "lenient_text dt s"
  shows "\<exists>more. re_match s = (dt, []) # more"
proof -
  note r = valid_datetime_ranges [OF v]
  from l obtain D Mo W H Mi S where
    D: "D \<in> set (day_forms (day dt))" and Mo: "Mo \<in> set (field_forms (month dt))" and
    W: "W \<noteq> []" "list_all isspace W" and
    H: "H \<in> set (field_forms (hour dt))" and Mi: "Mi \<in> set (field_forms (minute dt))" and
    S: "S \<in> set (field_forms (second dt))" and
    s: "s = D @ ''/'' @ Mo @ ''/'' @ pad4 (year dt) @ W @ H @ '':'' @ Mi @ '':'' @ S"
    unfolding lenient_text_def by blast
  from field_forms_head [OF H r(7)] r(8) obtain c cs where c: "H = c # cs" "\<not> isspace c"
    by auto
  define F6 where "F6 d m y h mi r10 =
      List.bind (re_S r10) (\<lambda>(sec, r11).
        [(\<lparr>day = d, month = m, year = y, hour = h, minute = mi, second = sec\<rparr>, r11)])"
    for d m y h mi r10
  define F5 where "F5 d m y h r8 =
      List.bind (re_M r8) (\<lambda>(mi, r9). List.bind (re_lit (CHR '':'') r9) (F6 d m y h mi))"
    for d m y h r8
  define F4 where "F4 d m y r6 =
      List.bind (re_H r6) (\<lambda>(h, r7). List.bind (re_lit (CHR '':'') r7) (F5 d m y h))"
    for d m y r6
  define F3 where "F3 d m r4 =
      List.bind (re_Y r4) (\<lambda>(y, r5). List.bind (re_spaces r5) (F4 d m y))"
    for d m r4
  define F2 where "F2 d r2 =
      List.bind (re_m r2) (\<lambda>(m, r3). List.bind (re_lit (CHR ''/'') r3) (F3 d m))"
    for d r2
  have F6': "F6 d m y h mi = (\<lambda>r10. F6 d m y h mi r10)" for d m y h mi by simp
  have rm: "re_match t = List.bind (re_d t) (\<lambda>(d, r1). List.bind (re_lit (CHR ''/'') r1) (F2 d))" for t
    unfolding re_match_def F2_def F3_def F4_def F5_def F6_def by simp
  define s6 where "s6 = Mi @ CHR '':'' # S"
  define s5 where "s5 = H @ CHR '':'' # s6"
  define s3 where "s3 = pad4 (year dt) @ W @ s5"
  define s2 where "s2 = Mo @ CHR ''/'' # s3"
  have s': "s = D @ CHR ''/'' # s2"
    by (simp add: s s2_def s3_def s5_def s6_def)
  have 1: "re_match s = F2 (day dt) s2"
    unfolding rm s' using D r(1,2) by (rule bind_d)
  have 2: "F2 (day dt) s2 = F3 (day dt) (month dt) s3"
    unfolding F2_def s2_def using Mo r(3,4) by (rule bind_m)
  have 3: "F3 (day dt) (month dt) s3 = List.bind (re_spaces (W @ s5)) (F4 (day dt) (month dt) (year dt))"
    unfolding F3_def s3_def by (simp add: re_Y_pad4 [OF r(5,6)] List.bind_def)
  have z: "F4 (day dt) (month dt) (year dt) (x # xs) = []" if "isspace x" for x xs
    unfolding F4_def using that by (simp add: re_H_space List.bind_def)
  have 4: "List.bind (re_spaces (W @ s5)) (F4 (day dt) (month dt) (year dt)) =
           F4 (day dt) (month dt) (year dt) s5"
    unfolding s5_def c(1) append_Cons using W c(2) z by (rule bind_spaces)
  have 5: "F4 (day dt) (month dt) (year dt) s5 = F5 (day dt) (month dt) (year dt) (hour dt) s6"
    unfolding F4_def s5_def using H r(7,8) by (rule bind_H)
  have 6: "F5 (day dt) (month dt) (year dt) (hour dt) s6 =
           F6 (day dt) (month dt) (year dt) (hour dt) (minute dt) S"
    unfolding F5_def s6_def using Mi r(9,10) by (rule bind_M)
  from bind_S [OF S r(11,12),
      of "\<lambda>sec. \<lparr>day = day dt, month = month dt, year = year dt, hour = hour dt,
                  minute = minute dt, second = sec\<rparr>"]
  obtain more where 7: "F6 (day dt) (month dt) (year dt) (hour dt) (minute dt) S = (dt, []) # more"
    unfolding F6_def by auto
  from 1 2 3 4 5 6 7 show ?thesis by simp
qed

lemma strptime_lenient:
  assumes "valid_datetime dt" and "lenient_text dt s"
  shows "strptime s = Some dt"
proof -
  from re_match_lenient [OF assms] obtain more where "re_match s = (dt, []) # more" by blast
  with assms(1) show ?thesis by (simp add: strptime_def)
qed

lemma two_chars_mem:
  assumes "(v, r) \<in> set (two_chars P Q s)"
  shows "\<exists>a b. s = a # b # r \<and> P a \<and> Q b \<and> v = digits_val 0 (filter isdigit [a, b])"
proof (cases s)
  case Nil
  with assms show ?thesis by (simp add: two_chars_def)
next
  case (Cons a t)
  show ?thesis
  proof (cases t)
    case Nil
    with Cons assms show ?thesis by (simp add: two_chars_def)
  next
    case (Cons b u)
    with \<open>s = a # t\<close> assms show ?thesis
      by (auto simp: two_chars_def split: if_splits)
  qed
qed

lemma one_char_mem:
  assumes "(v, r) \<in> set (one_char P s)"
  shows "\<exists>a. s = a # r \<and> P a \<and> v = digit_val a"
  using assms by (cases s) (auto simp: one_char_def split: if_splits)

lemma two_digit_text:
  assumes "isdigit a" "isdigit b"
  shows "[a, b] = two_digits (digits_val 0 (filter isdigit [a, b]))"
proof -
  from assms obtain x y where x: "0 \<le> x" "x \<le> 9" "a = digit_char x"
    and y: "0 \<le> y" "y \<le> 9" "b = digit_char y"
    using isdigit_digit_char by blast
  have v: "digits_val 0 (filter isdigit [a, b]) = 10 * x + y"
    using x y by (simp add: digit_char_isdigit digit_char_val)
  from x y have d: "(10 * x + y) div 10 = x" "(10 * x + y) mod 10 = y" "y mod 10 = y"
    by simp_all
  have e: "[a, b] = two_digits (10 * x + y)"
    by (simp add: two_digits_def d x(3) y(3))
  show ?thesis unfolding v by (rule e)
qed

lemma one_digit_text:
  assumes "isdigit a"
  shows "[a] = [digit_char (digit_val a)]" "0 \<le> digit_val a" "digit_val a \<le> 9"
proof -
  from assms obtain x where x: "0 \<le> x" "x \<le> 9" "a = digit_char x"
    using isdigit_digit_char by blast
  then show "[a] = [digit_char (digit_val a)]" "0 \<le> digit_val a" "digit_val a \<le> 9"
    by (simp_all add: digit_char_val)
qed

lemma in_range_literal_isdigit:
  "in_range (CHR ''0'') (CHR ''1'') c \<Longrightarrow> isdigit c"
  "in_range (CHR ''0'') (CHR ''2'') c \<Longrightarrow> isdigit c"
  "in_range (CHR ''0'') (CHR ''3'') c \<Longrightarrow> isdigit c"
  "in_range (CHR ''0'') (CHR ''5'') c \<Longrightarrow> isdigit c"
  "in_range (CHR ''1'') (CHR ''2'') c \<Longrightarrow> isdigit c"
  "in_range (CHR ''1'') (CHR ''9'') c \<Longrightarrow> isdigit c"
  by (auto simp: in_range_def isdigit_def less_eq_char_def)

lemma literal_isdigit:
  "isdigit (CHR ''0'')" "isdigit (CHR ''1'')" "isdigit (CHR ''2'')" "isdigit (CHR ''3'')"
  "isdigit (CHR ''6'')"
  by (simp_all add: isdigit_def)

lemma two_digits_form: "two_digits v \<in> set (field_forms v)"
  by (simp add: field_forms_def)

lemma two_digits_day_form: "two_digits v \<in> set (day_forms v)"
  by (simp add: day_forms_def field_forms_def)

lemma one_digit_form: "isdigit a \<Longrightarrow> [a] \<in> set (field_forms (digit_val a))"
  using one_digit_text [of a] by (simp add: field_forms_def)

lemma one_digit_day_form: "isdigit a \<Longrightarrow> [a] \<in> set (day_forms (digit_val a))"
  using one_digit_text [of a] by (simp add: day_forms_def field_forms_def)

lemma re_d_mem:
  assumes "(v, r) \<in> set (re_d s)"
  shows "\<exists>D. s = D @ r \<and> D \<in> set (day_forms v)"
proof -
  have two: "\<exists>D. s = D @ r \<and> D \<in> set (day_forms v)"
    if "(v, r) \<in> set (two_chars P Q s)" "\<And>a. P a \<Longrightarrow> isdigit a" "\<And>a. Q a \<Longrightarrow> isdigit a" for P Q
  proof -
    from two_chars_mem [OF that(1)] obtain a b where
      ab: "s = a # b # r" "P a" "Q b" "v = digits_val 0 (filter isdigit [a, b])" by blast
    with that(2,3) have "[a, b] = two_digits v" using two_digit_text by simp
    with ab(1) have "s = two_digits v @ r" by simp
    then show ?thesis using two_digits_day_form by blast
  qed
  from assms consider
    "(v, r) \<in> set (two_chars (\<lambda>c. c = CHR ''3'') (in_range (CHR ''0'') (CHR ''1'')) s)" |
    "(v, r) \<in> set (two_chars (in_range (CHR ''1'') (CHR ''2'')) isdigit s)" |
    "(v, r) \<in> set (two_chars (\<lambda>c. c = CHR ''0'') (in_range (CHR ''1'') (CHR ''9'')) s)" |
    "(v, r) \<in> set (one_char (in_range (CHR ''1'') (CHR ''9'')) s)" |
    "(v, r) \<in> set (two_chars (\<lambda>c. c = CHR '' '') (in_range (CHR ''1'') (CHR ''9'')) s)"
    by (auto simp: re_d_def)
  then show ?thesis
  proof cases
    case 1
    then show ?thesis by (rule two) (simp_all add: literal_isdigit in_range_literal_isdigit)
  next
    case 2
    then show ?thesis by (rule two) (simp_all add: literal_isdigit in_range_literal_isdigit)
  next
    case 3
    then show ?thesis by (rule two) (simp_all add: literal_isdigit in_range_literal_isdigit)
  next
    case 4
    from one_char_mem [OF 4] obtain a where a: "s = a # r" "in_range (CHR ''1'') (CHR ''9'') a"
      "v = digit_val a" by blast
    then have "isdigit a" by (simp add: in_range_literal_isdigit)
    then have "[a] \<in> set (day_forms v)" using a(3) one_digit_day_form by simp
    with a(1) show ?thesis by auto
  next
    case 5
    from two_chars_mem [OF 5] obtain a b where
      ab: "s = a # b # r" "a = CHR '' ''" "in_range (CHR ''1'') (CHR ''9'') b"
      "v = digits_val 0 (filter isdigit [a, b])" by blast
    then have b: "isdigit b" by (simp add: in_range_literal_isdigit)
    from ab b have v: "v = digit_val b" by (simp add: sep_not_digit)
    from one_digit_text [OF b] v have "[CHR '' '', b] \<in> set (day_forms v)"
      by (simp add: day_forms_def)
    with ab(1,2) have "s = [CHR '' '', b] @ r \<and> [CHR '' '', b] \<in> set (day_forms v)" by simp
    then show ?thesis by blast
  qed
qed

lemma field_two_mem:
  assumes "(v, r) \<in> set (two_chars P Q s)"
    and "\<And>a. P a \<Longrightarrow> isdigit a" "\<And>a. Q a \<Longrightarrow> isdigit a"
  shows "\<exists>D. s = D @ r \<and> D \<in> set (field_forms v)"
proof -
  from two_chars_mem [OF assms(1)] obtain a b where
    ab: "s = a # b # r" "P a" "Q b" "v = digits_val 0 (filter isdigit [a, b])" by blast
  with assms(2,3) have "[a, b] = two_digits v" using two_digit_text by simp
  with ab(1) have "s = two_digits v @ r" by simp
  then show ?thesis using two_digits_form by blast
qed

lemma field_one_mem:
  assumes "(v, r) \<in> set (one_char R s)" and "\<And>a. R a \<Longrightarrow> isdigit a"
  shows "\<exists>D. s = D @ r \<and> D \<in> set (field_forms v)"
proof -
  from one_char_mem [OF assms(1)] obtain a where a: "s = a # r" "R a" "v = digit_val a" by blast
  with assms(2) have "[a] \<in> set (field_forms v)" using one_digit_form by simp
  with a(1) show ?thesis by auto
qed

lemma re_m_mem:
  assumes "(v, r) \<in> set (re_m s)"
  shows "\<exists>D. s = D @ r \<and> D \<in> set (field_forms v)"
proof -
  from assms consider
    "(v, r) \<in> set (two_chars (\<lambda>c. c = CHR ''1'') (in_range (CHR ''0'') (CHR ''2'')) s)" |
    "(v, r) \<in> set (two_chars (\<lambda>c. c = CHR ''0'') (in_range (CHR ''1'') (CHR ''9'')) s)" |
    "(v, r) \<in> set (one_char (in_range (CHR ''1'') (CHR ''9'')) s)"
    by (auto simp: re_m_def)
  then show ?thesis
  proof cases
    case 1
    then show ?thesis
      by (rule field_two_mem) (simp_all add: literal_isdigit in_range_literal_isdigit)
  next
    case 2
    then show ?thesis
      by (rule field_two_mem) (simp_all add: literal_isdigit in_range_literal_isdigit)
  next
    case 3
    then show ?thesis
      by (rule field_one_mem) (simp_all add: literal_isdigit in_range_literal_isdigit)
  qed
qed

lemma re_H_mem:
  assumes "(v, r) \<in> set (re_H s)"
  shows "\<exists>D. s = D @ r \<and> D \<in> set (field_forms v)"
proof -
  from assms consider
    "(v, r) \<in> set (two_chars (\<lambda>c. c = CHR ''2'') (in_range (CHR ''0'') (CHR ''3'')) s)" |
    "(v, r) \<in> set (two_chars (in_range (CHR ''0'') (CHR ''1'')) isdigit s)" |
    "(v, r) \<in> set (one_char isdigit s)"
    by (auto simp: re_H_def)
  then show ?thesis
  proof cases
    case 1
    then show ?thesis
      by (rule field_two_mem) (simp_all add: literal_isdigit in_range_literal_isdigit)
  next
    case 2
    then show ?thesis
      by (rule field_two_mem) (simp_all add: literal_isdigit in_range_literal_isdigit)
  next
    case 3
    then show ?thesis
      by (rule field_one_mem) (simp_all add: literal_isdigit in_range_literal_isdigit)
  qed
qed

lemma re_M_mem:
  assumes "(v, r) \<in> set (re_M s)"
  shows "\<exists>D. s = D @ r \<and> D \<in> set (field_forms v)"
proof -
  from assms consider
    "(v, r) \<in> set (two_chars (in_range (CHR ''0'') (CHR ''5'')) isdigit s)" |
    "(v, r) \<in> set (one_char isdigit s)"
    by (auto simp: re_M_def)
  then show ?thesis
  proof cases
    case 1
    then show ?thesis
      by (rule field_two_mem) (simp_all add: literal_isdigit in_range_literal_isdigit)
  next
    case 2
    then show ?thesis
      by (rule field_one_mem) (simp_all add: literal_isdigit in_range_literal_isdigit)
  qed
qed

lemma re_S_mem:
  assumes "(v, r) \<in> set (re_S s)"
  shows "\<exists>D. s = D @ r \<and> D \<in> set (field_forms v)"
proof -
  from assms consider
    "(v, r) \<in> set (two_chars (\<lambda>c. c = CHR ''6'') (in_range (CHR ''0'') (CHR ''1'')) s)" |
    "(v, r) \<in> set (two_chars (in_range (CHR ''0'') (CHR ''5'')) isdigit s)" |
    "(v, r) \<in> set (one_char isdigit s)"
    by (auto simp: re_S_def)
  then show ?thesis
  proof cases
    case 1
    then show ?thesis
      by (rule field_two_mem) (simp_all add: literal_isdigit in_range_literal_isdigit)
  next
    case 2
    then show ?thesis
      by (rule field_two_mem) (simp_all add: literal_isdigit in_range_literal_isdigit)
  next
    case 3
    then show ?thesis
      by (rule field_one_mem) (simp_all add: literal_isdigit in_range_literal_isdigit)
  qed
qed

lemma four_digit_text:
  assumes "isdigit a" "isdigit b" "isdigit c" "isdigit d"
  shows "pad4 (digits_val 0 [a, b, c, d]) = [a, b, c, d]"
proof -
  from assms obtain w x y z where w: "0 \<le> w" "w \<le> 9" "a = digit_char w"
    and x: "0 \<le> x" "x \<le> 9" "b = digit_char x"
    and y: "0 \<le> y" "y \<le> 9" "c = digit_char y"
    and z: "0 \<le> z" "z \<le> 9" "d = digit_char z"
    using isdigit_digit_char by metis
  define V2 V1 V where "V2 = 10 * w + x" and "V1 = 10 * V2 + y" and "V = 10 * V1 + z"
  have v: "digits_val 0 [a, b, c, d] = V"
    using w x y z by (simp add: digit_char_val V_def V1_def V2_def)
  have 1: "V mod 10 = z" "V div 10 = V1" using z by (simp_all add: V_def)
  have 2: "V1 mod 10 = y" "V1 div 10 = V2" using y by (simp_all add: V1_def)
  have 3: "V2 mod 10 = x" "V2 div 10 = w" using x by (simp_all add: V2_def)
  have "V div 100 = V div 10 div 10" using zdiv_zmult2_eq [of 10 V 10] by simp
  then have h1: "V div 100 = V2" by (simp add: 1 2)
  have "V div 1000 = V div 100 div 10" using zdiv_zmult2_eq [of 100 V 10] by simp
  then have h2: "V div 1000 = w" by (simp add: h1 3)
  note h = h1 h2
  show ?thesis
    unfolding v by (simp add: pad4_def h 1 2 3 w(3) x(3) y(3) z(3))
qed

lemma length_four:
  assumes "length xs = 4"
  shows "\<exists>a b c d. xs = [a, b, c, d]"
proof -
  from assms obtain a x1 where 1: "xs = a # x1" "length x1 = 3" by (cases xs) auto
  then obtain b x2 where 2: "x1 = b # x2" "length x2 = 2" by (cases x1) auto
  then obtain c x3 where 3: "x2 = c # x3" "length x3 = 1" by (cases x2) auto
  then obtain d x4 where 4: "x3 = d # x4" "length x4 = 0" by (cases x3) auto
  with 1 2 3 show ?thesis by simp
qed

lemma re_Y_mem:
  assumes "(y, r) \<in> set (re_Y s)"
  shows "s = pad4 y @ r"
proof -
  from assms have l: "4 \<le> length s" and d: "list_all isdigit (take 4 s)"
    and y: "y = digits_val 0 (take 4 s)" and r: "r = drop 4 s"
    by (auto simp: re_Y_def split: if_splits)
  from l have "length (take 4 s) = 4" by simp
  then obtain a b c e where t: "take 4 s = [a, b, c, e]"
    using length_four by blast
  with d have "pad4 y = take 4 s"
    using four_digit_text [of a b c e] by (simp add: y)
  with r show ?thesis by simp
qed

lemma re_spaces_mem:
  assumes "r \<in> set (re_spaces s)"
  shows "\<exists>W. W \<noteq> [] \<and> list_all isspace W \<and> s = W @ r"
proof -
  let ?n = "length (takeWhile isspace s)"
  from assms obtain k where k: "1 \<le> k" "k \<le> ?n" "r = drop k s"
    by (auto simp: re_spaces_def)
  have "take k s = take k (takeWhile isspace s @ dropWhile isspace s)" by simp
  also have "\<dots> = take k (takeWhile isspace s)" using k(2) by (simp del: takeWhile_dropWhile_id)
  finally have "set (take k s) \<subseteq> set (takeWhile isspace s)"
    using set_take_subset [of k "takeWhile isspace s"] by simp
  then have a: "list_all isspace (take k s)"
    by (auto simp: list_all_iff dest: set_takeWhileD)
  from k have "k \<le> length s" using length_takeWhile_le [of isspace s] by linarith
  with k(1) have n: "take k s \<noteq> []" by auto
  from k(3) have "s = take k s @ r" by simp
  with a n show ?thesis by blast
qed

lemma re_lit_mem: "r' \<in> set (re_lit c r) \<Longrightarrow> r = c # r'"
  by (cases r) (auto simp: re_lit_def split: if_splits)

lemma re_match_mem:
  assumes "(dt, rest) \<in> set (re_match s)"
  shows "\<exists>D Mo W H Mi S.
           D \<in> set (day_forms (day dt)) \<and> Mo \<in> set (field_forms (month dt)) \<and>
           W \<noteq> [] \<and> list_all isspace W \<and>
           H \<in> set (field_forms (hour dt)) \<and> Mi \<in> set (field_forms (minute dt)) \<and>
           S \<in> set (field_forms (second dt)) \<and>
           s = D @ ''/'' @ Mo @ ''/'' @ pad4 (year dt) @ W @ H @ '':'' @ Mi @ '':'' @ S @ rest"
proof -
  from assms obtain d r1 r2 m r3 r4 y r5 r6 h r7 r8 mi r9 r10 sec where
    m: "(d, r1) \<in> set (re_d s)" "r2 \<in> set (re_lit (CHR ''/'') r1)"
       "(m, r3) \<in> set (re_m r2)" "r4 \<in> set (re_lit (CHR ''/'') r3)"
       "(y, r5) \<in> set (re_Y r4)" "r6 \<in> set (re_spaces r5)"
       "(h, r7) \<in> set (re_H r6)" "r8 \<in> set (re_lit (CHR '':'') r7)"
       "(mi, r9) \<in> set (re_M r8)" "r10 \<in> set (re_lit (CHR '':'') r9)"
       "(sec, rest) \<in> set (re_S r10)"
    and dt: "dt = \<lparr>day = d, month = m, year = y, hour = h, minute = mi, second = sec\<rparr>"
    unfolding re_match_def by (auto simp: set_list_bind)
  from re_d_mem [OF m(1)] obtain D where D: "s = D @ r1" "D \<in> set (day_forms d)" by blast
  from re_m_mem [OF m(3)] obtain Mo where Mo: "r2 = Mo @ r3" "Mo \<in> set (field_forms m)" by blast
  from re_spaces_mem [OF m(6)] obtain W where W: "W \<noteq> []" "list_all isspace W" "r5 = W @ r6"
    by blast
  from re_H_mem [OF m(7)] obtain H where H: "r6 = H @ r7" "H \<in> set (field_forms h)" by blast
  from re_M_mem [OF m(9)] obtain Mi where Mi: "r8 = Mi @ r9" "Mi \<in> set (field_forms mi)" by blast
  from re_S_mem [OF m(11)] obtain S where S: "r10 = S @ rest" "S \<in> set (field_forms sec)" by blast
  have "s = D @ ''/'' @ Mo @ ''/'' @ pad4 y @ W @ H @ '':'' @ Mi @ '':'' @ S @ rest"
    using D(1) re_lit_mem [OF m(2)] Mo(1) re_lit_mem [OF m(4)] re_Y_mem [OF m(5)] W(3) H(1)
      re_lit_mem [OF m(8)] Mi(1) re_lit_mem [OF m(10)] S(1)
    by simp
  with D(2) Mo(2) W(1,2) H(2) Mi(2) S(2) show ?thesis
    unfolding dt by (intro exI [of _ D] exI [of _ Mo] exI [of _ W] exI [of _ H] exI [of _ Mi] exI [of _ S]) simp
qed

lemma strptime_iff: "strptime s = Some dt \<longleftrightarrow> valid_datetime dt \<and> lenient_text dt s"
proof
  assume a: "strptime s = Some dt"
  then obtain more where r: "re_match s = (dt, []) # more" and v: "valid_datetime dt"
    by (auto simp: strptime_def split: list.splits if_splits)
  then have "(dt, []) \<in> set (re_match s)" by simp
  from re_match_mem [OF this] have "lenient_text dt s"
    unfolding lenient_text_def by simp
  with v show "valid_datetime dt \<and> lenient_text dt s" by simp
next
  assume "valid_datetime dt \<and> lenient_text dt s"
  then show "strptime s = Some dt" using strptime_lenient by blast
qed

lemma show_nat_two_digits:
  assumes "0 \<le> v" "v \<le> 99"
  shows "pad2 v = two_digits v"
proof (cases "v < 10")
  case True
  with assms have "v div 10 = 0" "v mod 10 = v" by simp_all
  with True show ?thesis
    by (simp add: pad2_def two_digits_def show_nat.simps [of v] digit_literals)
next
  case False
  with assms have "v div 10 < 10" by simp
  with False show ?thesis
    by (simp add: pad2_def two_digits_def show_nat.simps [of v] show_nat.simps [of "v div 10"])
qed

lemma show_nat_pad4:
  assumes "1000 \<le> y" "y \<le> 9999"
  shows "show_nat y = pad4 y"
proof -
  define q1 q2 q3 where "q1 = y div 10" and "q2 = y div 100" and "q3 = y div 1000"
  have "y div (10 * 10) = y div 10 div 10" by (rule zdiv_zmult2_eq) simp
  then have d1: "q1 div 10 = q2" by (simp add: q1_def q2_def)
  have "y div (100 * 10) = y div 100 div 10" by (rule zdiv_zmult2_eq) simp
  then have d2: "q2 div 10 = q3" by (simp add: q2_def q3_def)
  note d = d1 d2
  have a: "\<not> y < 10" "\<not> q1 < 10" "\<not> q2 < 10" "q3 < 10"
    unfolding q1_def q2_def q3_def using assms by simp_all
  have 3: "show_nat q3 = [digit_char q3]"
    using a(4) by (simp add: show_nat.simps [of q3])
  have 2: "show_nat q2 = show_nat q3 @ [digit_char (q2 mod 10)]"
    using a(3) d(2) by (simp add: show_nat.simps [of q2])
  have 1: "show_nat q1 = show_nat q2 @ [digit_char (q1 mod 10)]"
    using a(2) d(1) by (simp add: show_nat.simps [of q1])
  have 0: "show_nat y = show_nat q1 @ [digit_char (y mod 10)]"
    using a(1) by (simp add: show_nat.simps [of y] q1_def)
  show ?thesis
    unfolding 0 1 2 3 by (simp add: pad4_def q1_def q2_def q3_def)
qed

lemma strftime_strict:
  assumes "valid_datetime dt" "1000 \<le> year dt"
  shows "strftime dt = strict_text dt"
proof -
  note r = valid_datetime_ranges [OF assms(1)]
  have "pad2 (day dt) = two_digits (day dt)" "pad2 (month dt) = two_digits (month dt)"
    "pad2 (hour dt) = two_digits (hour dt)" "pad2 (minute dt) = two_digits (minute dt)"
    "pad2 (second dt) = two_digits (second dt)"
    using r by (simp_all add: show_nat_two_digits)
  moreover have "show_nat (year dt) = pad4 (year dt)"
    using assms(2) r(6) by (rule show_nat_pad4)
  ultimately show ?thesis by (simp add: strftime_def strict_text_def)
qed

lemma strict_text_lenient: "lenient_text dt (strict_text dt)"
  unfolding lenient_text_def
  by (intro exI [of _ "two_digits (day dt)"] exI [of _ "two_digits (month dt)"] exI [of _ "'' ''"]
      exI [of _ "two_digits (hour dt)"] exI [of _ "two_digits (minute dt)"]
      exI [of _ "two_digits (second dt)"])
    (simp add: strict_text_def two_digits_form two_digits_day_form isspace_def)

lemma strict_text_not_agora: "lower (strict_text dt) \<noteq> ''agora''"
proof
  assume "lower (strict_text dt) = ''agora''"
  then have "length (lower (strict_text dt)) = length ''agora''" by simp
  then show False by (simp add: lower_def strict_text_def two_digits_def pad4_def)
qed

lemma validate_date_strict:
  assumes "valid_datetime dt"
  shows "validate_date now (strict_text dt) = Some (strftime dt)"
proof -
  have "strptime (strict_text dt) = Some dt"
    using assms strict_text_lenient by (rule strptime_lenient)
  then show ?thesis by (simp add: validate_date_def strict_text_not_agora)
qed

lemma validate_date_other:
  assumes "lower s \<noteq> ''agora''"
  shows "validate_date now s = Some r \<longleftrightarrow> (\<exists>dt. valid_datetime dt \<and> lenient_text dt s \<and> r = strftime dt)"
proof
  assume "validate_date now s = Some r"
  with assms obtain dt where "strptime s = Some dt" "r = strftime dt"
    by (auto simp: validate_date_def split: option.splits)
  then show "\<exists>dt. valid_datetime dt \<and> lenient_text dt s \<and> r = strftime dt"
    using strptime_iff by blast
next
  assume "\<exists>dt. valid_datetime dt \<and> lenient_text dt s \<and> r = strftime dt"
  then obtain dt where "strptime s = Some dt" "r = strftime dt"
    using strptime_iff by blast
  with assms show "validate_date now s = Some r" by (simp add: validate_date_def)
qed

lemma validate_date_examples:
  "validate_date now ''now'' = None" "validate_date now ''NOW'' = None"
  "validate_date now ''31/02/2024 10:00:00'' = None"
  "validate_date now ''1/2/2024 3:4:5'' = Some ''01/02/2024 03:04:05''"
proof -
  have l: "lower ''now'' \<noteq> ''agora''" "lower ''NOW'' \<noteq> ''agora''"
    "lower ''31/02/2024 10:00:00'' \<noteq> ''agora''" "lower ''1/2/2024 3:4:5'' \<noteq> ''agora''"
    by code_simp+
  have p: "strptime ''now'' = None" "strptime ''NOW'' = None"
    "strptime ''31/02/2024 10:00:00'' = None"
    by code_simp+
  have q: "map_option strftime (strptime ''1/2/2024 3:4:5'') = Some ''01/02/2024 03:04:05''"
    by code_simp
  show "validate_date now ''now'' = None" "validate_date now ''NOW'' = None"
    "validate_date now ''31/02/2024 10:00:00'' = None"
    using l p by (simp_all add: validate_date_def)
  show "validate_date now ''1/2/2024 3:4:5'' = Some ''01/02/2024 03:04:05''"
    using l(4) q by (auto simp: validate_date_def split: option.splits)
qed

text \<open>
  \<open>now\<close> is not accepted, in either case of its letters; and a date without the zeros of
  the pattern is accepted.
\<close>

theorem parse_date_counterexample:
  "validate_date sample_time ''now'' = None \<and> validate_date sample_time ''NOW'' = None \<and>
   validate_date sample_time ''1/2/2024 3:4:5'' = Some ''01/02/2024 03:04:05''"
  by (simp add: validate_date_examples)

text \<open>
  C3 (as amended). \<open>validate_date\<close> accepts \<open>agora\<close> in any case of its letters and
  returns the current time; \<open>now\<close> is rejected. Any other text is accepted exactly when it
  is a date text of an existing date and time: day, month, hour, minute and second with
  one or two digits (the day also with a blank for the first), a year of four digits from
  0001, and any white space between date and time. The result is that date and time
  printed in the pattern. Every text in the strict pattern \<open>DD/MM/YYYY HH:MM:SS\<close> of an
  existing date and time is accepted; it is returned unchanged when the year is 1000 or
  later. A date that does not exist, such as 31/02/2024, is rejected.
\<close>

theorem parse_date:
  "(lower s = ''agora'' \<longrightarrow> validate_date now s = Some (strftime now)) \<and>
   validate_date now ''now'' = None \<and>
   (lower s \<noteq> ''agora'' \<longrightarrow>
      (validate_date now s = Some r) =
      (\<exists>dt. valid_datetime dt \<and> lenient_text dt s \<and> r = strftime dt)) \<and>
   (valid_datetime dt \<longrightarrow> validate_date now (strict_text dt) = Some (strftime dt)) \<and>
   (valid_datetime dt \<and> 1000 \<le> year dt \<longrightarrow> strftime dt = strict_text dt) \<and>
   validate_date now ''31/02/2024 10:00:00'' = None"
  using validate_date_other [of s now r] validate_date_strict [of dt now]
    strftime_strict [of dt] validate_date_examples(1,3) [of now]
  by (simp add: validate_date_def)

theorem parse_date_witness:
  "lower ''Agora'' = ''agora'' \<and>
   validate_date sample_time ''Agora'' = Some ''04/11/2026 07:03:09'' \<and>
   lower ''29/2/2024  7:05:09'' \<noteq> ''agora'' \<and>
   validate_date sample_time ''29/2/2024  7:05:09'' = Some ''29/02/2024 07:05:09'' \<and>
   valid_datetime sample_time \<and> 1000 \<le> year sample_time \<and>
   strict_text sample_time = ''04/11/2026 07:03:09'' \<and>
   validate_date sample_time ''04/11/2026 07:03:09'' = Some ''04/11/2026 07:03:09''"
proof -
  let ?d = "\<lparr>day = 29, month = 2, year = 2024, hour = 7, minute = 5, second = 9\<rparr>"
  have a: "lower ''Agora'' = ''agora''" by code_simp
  have t: "strftime sample_time = ''04/11/2026 07:03:09''"
    unfolding sample_time_def by code_simp
  have st: "strict_text sample_time = ''04/11/2026 07:03:09''"
    unfolding sample_time_def by code_simp
  have v: "valid_datetime sample_time" "1000 \<le> year sample_time"
    unfolding sample_time_def by code_simp+
  have n: "lower ''29/2/2024  7:05:09'' \<noteq> ''agora''" by code_simp
  have vd: "valid_datetime ?d" by code_simp
  have sd: "strftime ?d = ''29/02/2024 07:05:09''" by code_simp
  have f: "''29'' \<in> set (day_forms 29)" "''2'' \<in> set (field_forms 2)"
    "''7'' \<in> set (field_forms 7)" "''05'' \<in> set (field_forms 5)"
    "''09'' \<in> set (field_forms 9)" "pad4 2024 = ''2024''" "list_all isspace ''  ''"
    by code_simp+
  have sel: "day ?d = 29" "month ?d = 2" "year ?d = 2024" "hour ?d = 7" "minute ?d = 5"
    "second ?d = 9"
    by simp_all
  have e: "''29/2/2024  7:05:09'' =
      ''29'' @ ''/'' @ ''2'' @ ''/'' @ ''2024'' @ ''  '' @ ''7'' @ '':'' @ ''05'' @ '':'' @ ''09''"
    by simp
  have ne: "''  '' \<noteq> []" by simp
  have "''29'' \<in> set (day_forms 29) \<and> ''2'' \<in> set (field_forms 2) \<and>
        ''  '' \<noteq> [] \<and> list_all isspace ''  '' \<and>
        ''7'' \<in> set (field_forms 7) \<and> ''05'' \<in> set (field_forms 5) \<and>
        ''09'' \<in> set (field_forms 9) \<and>
        ''29/2/2024  7:05:09'' =
          ''29'' @ ''/'' @ ''2'' @ ''/'' @ pad4 2024 @ ''  '' @ ''7'' @ '':'' @ ''05'' @ '':'' @ ''09''"
    unfolding f(6) using f(1-5,7) e ne by (intro conjI)
  then have ld: "lenient_text ?d ''29/2/2024  7:05:09''"
    unfolding lenient_text_def sel by (intro exI)
  from vd ld sd have ex: "\<exists>dt. valid_datetime dt \<and> lenient_text dt ''29/2/2024  7:05:09'' \<and>
      ''29/02/2024 07:05:09'' = strftime dt"
    by (intro exI [of _ ?d] conjI) (rule vd, rule ld, rule sd [symmetric])
  note p1 = parse_date [of "''Agora''" sample_time, THEN conjunct1]
  from p1 a have "validate_date sample_time ''Agora'' = Some (strftime sample_time)"
    by (rule mp)
  then have 1: "validate_date sample_time ''Agora'' = Some ''04/11/2026 07:03:09''"
    by (simp only: t)
  note p2 = parse_date [of "''29/2/2024  7:05:09''" sample_time "''29/02/2024 07:05:09''",
      THEN conjunct2, THEN conjunct2, THEN conjunct1]
  from p2 n have "(validate_date sample_time ''29/2/2024  7:05:09'' = Some ''29/02/2024 07:05:09'') =
      (\<exists>dt. valid_datetime dt \<and> lenient_text dt ''29/2/2024  7:05:09'' \<and>
        ''29/02/2024 07:05:09'' = strftime dt)"
    by (rule mp)
  with ex
  have 2: "validate_date sample_time ''29/2/2024  7:05:09'' = Some ''29/02/2024 07:05:09''"
    by (rule iffD2 [rotated])
  note p3 = parse_date [of _ sample_time _ sample_time,
      THEN conjunct2, THEN conjunct2, THEN conjunct2, THEN conjunct1]
  from p3 v(1)
  have "validate_date sample_time (strict_text sample_time) = Some (strftime sample_time)"
    by (rule mp)
  then have 3: "validate_date sample_time ''04/11/2026 07:03:09'' = Some ''04/11/2026 07:03:09''"
    by (simp only: t st)
  from a 1 n 2 v st 3 show ?thesis by (intro conjI)
qed

end
